theory Spec2Isabelle
  imports Main "HOL-Library.Word"
begin

section \<open>Outcomes of a call\<close>

text \<open>
  The C++ code leaves a function in one of three ways: it returns, it throws, or it ends
  the process (\<^verbatim>\<open>std::terminate\<close>, a failed \<^verbatim>\<open>TIGHTDB_ASSERT\<close>, a
  \<^verbatim>\<open>TIGHTDB_NORETURN\<close> helper). Each way is a value of \<open>exit\<close>.
\<close>

datatype exn =
    NotRecoverable        \<comment> \<open>\<^verbatim>\<open>RobustMutex::NotRecoverable\<close>\<close>
  | CreateFailed int      \<comment> \<open>thrown by \<^verbatim>\<open>Thread::create_failed(r)\<close>\<close>
  | BadAlloc              \<comment> \<open>thrown by \<^verbatim>\<open>new\<close>\<close>
  | UserException nat     \<comment> \<open>any other exception a callback throws\<close>

datatype 'a exit = Returned 'a | Thrown exn | Terminated


section \<open>Thread (thread.hpp, lines 359-397)\<close>

record Thread =
  m_id :: "nat option"    \<comment> \<open>\<^verbatim>\<open>pthread_t\<close>; \<open>None\<close> while never written\<close>
  m_joinable :: bool

text \<open>\<^verbatim>\<open>Thread::Thread(): m_joinable(false)\<close>\<close>

definition Thread_default :: Thread where
  "Thread_default = \<lparr>m_id = None, m_joinable = False\<rparr>"

text \<open>
  \<^verbatim>\<open>Thread::start(entry_func_type, void*)\<close>. The pair \<open>pc\<close> is what
  \<^verbatim>\<open>pthread_create\<close> answers: its return code and the id it stores in \<open>m_id\<close>.
  \<^verbatim>\<open>create_failed\<close> is declared \<^verbatim>\<open>TIGHTDB_NORETURN\<close> and marked "Throws".
\<close>

definition Thread_start_entry :: "int \<times> nat \<Rightarrow> Thread \<Rightarrow> Thread exit" where
  "Thread_start_entry pc t =
     (if fst pc \<noteq> 0 then Thrown (CreateFailed (fst pc))
      else Returned (t\<lparr>m_id := Some (snd pc)\<rparr>))"

text \<open>
  \<^verbatim>\<open>template<class F> Thread::Thread(F func): m_joinable(true)\<close>. \<open>alloc\<close> tells
  whether \<^verbatim>\<open>new F(func)\<close> succeeds.
\<close>

definition Thread_ctor_func :: "bool \<Rightarrow> int \<times> nat \<Rightarrow> Thread exit" where
  "Thread_ctor_func alloc pc =
     (if \<not> alloc then Thrown BadAlloc
      else Thread_start_entry pc \<lparr>m_id = None, m_joinable = True\<rparr>)"

text \<open>\<^verbatim>\<open>template<class F> void Thread::start(F func)\<close>\<close>

definition Thread_start :: "bool \<Rightarrow> int \<times> nat \<Rightarrow> Thread \<Rightarrow> Thread exit" where
  "Thread_start alloc pc t =
     (if m_joinable t then Terminated
      else if \<not> alloc then Thrown BadAlloc
      else (case Thread_start_entry pc t of
              Returned t' \<Rightarrow> Returned (t'\<lparr>m_joinable := True\<rparr>)
            | Thrown e \<Rightarrow> Thrown e
            | Terminated \<Rightarrow> Terminated))"

text \<open>\<^verbatim>\<open>Thread::~Thread()\<close>\<close>

definition Thread_dtor :: "Thread \<Rightarrow> unit exit" where
  "Thread_dtor t = (if m_joinable t then Terminated else Returned ())"

definition joinable :: "Thread \<Rightarrow> bool" where
  "joinable t = m_joinable t"


section \<open>The calling thread's view of the world\<close>

text \<open>
  The mutex and condition-variable code is modelled from the point of view of one
  thread. The world holds what that thread can see and change: the shared memory where
  the \<open>SharedPart\<close>s live, the value of the named semaphore, the private condition
  variables on the process's heap, whether the thread owns the mutex, and the history of
  the calls it made on the operating system and on its callbacks (oldest first).
  A blocking call that never returns has the value \<open>None\<close>.

  \<open>SharedPart\<close> has one layout when \<^verbatim>\<open>TIGHTDB_CONDVAR_EMULATION\<close> is defined
  (\<open>signal_counter\<close>, \<open>waiters\<close>) and another when it is not (\<open>m_impl\<close>); the record
  carries the fields of both, and each build reads only its own.
\<close>

type_synonym addr = nat

datatype pthread_cond_t = CondInitialized | CondDestroyed

record SharedPart =
  signal_counter :: "64 word"
  waiters :: "32 word"
  m_impl :: pthread_cond_t

text \<open>What a \<^verbatim>\<open>pthread_cond_t*\<close> of the code points to.\<close>

datatype cond_ptr =
    NullCond
  | PrivateCond addr     \<comment> \<open>\<open>m_cond\<close>: allocated by this handle\<close>
  | SharedCond addr      \<comment> \<open>\<^verbatim>\<open>&m_shared_part->m_impl\<close>\<close>

datatype event =
    MutexLock                  \<comment> \<open>\<^verbatim>\<open>pthread_mutex_lock\<close> returned 0\<close>
  | MutexUnlock                \<comment> \<open>\<^verbatim>\<open>pthread_mutex_unlock\<close> returned 0\<close>
  | LowLevelLock               \<comment> \<open>\<^verbatim>\<open>RobustMutex::low_level_lock()\<close>\<close>
  | MarkAsConsistent           \<comment> \<open>\<^verbatim>\<open>RobustMutex::mark_as_consistent()\<close>\<close>
  | RecoverFunc                \<comment> \<open>a call of the recovery callback\<close>
  | HandleWaitError int        \<comment> \<open>\<^verbatim>\<open>CondVar::handle_wait_error(r)\<close>\<close>
  | SemWait | SemPost | SemClose | SchedYield
  | WaitersInc | WaitersDec    \<comment> \<open>\<^verbatim>\<open>waiters++\<close>, \<^verbatim>\<open>--waiters\<close>\<close>
  | SignalInc                  \<comment> \<open>\<^verbatim>\<open>signal_counter++\<close>\<close>
  | SignalRead "64 word"       \<comment> \<open>a read of \<open>signal_counter\<close>, with the value read\<close>
  | CondWait cond_ptr | CondTimedWait cond_ptr
  | CondSignal cond_ptr | CondBroadcast cond_ptr
  | CondDestroy cond_ptr | CondDelete cond_ptr

record world =
  shm :: "addr \<Rightarrow> SharedPart"
  sem :: nat
  conds :: "addr \<Rightarrow> pthread_cond_t option"
  held :: bool
  owner_checked :: bool \<comment> \<open>the mutex is one that checks its owner on unlock\<close>
  asserts :: bool       \<comment> \<open>the build checks \<^verbatim>\<open>TIGHTDB_ASSERT\<close>\<close>
  emulation :: bool     \<comment> \<open>the build defines \<^verbatim>\<open>TIGHTDB_CONDVAR_EMULATION\<close>\<close>
  trace :: "event list"

definition record_event :: "event \<Rightarrow> world \<Rightarrow> world" where
  "record_event e w = w\<lparr>trace := trace w @ [e]\<rparr>"

definition at_shared_part :: "addr \<Rightarrow> (SharedPart \<Rightarrow> SharedPart) \<Rightarrow> world \<Rightarrow> world" where
  "at_shared_part a f w = w\<lparr>shm := (shm w)(a := f (shm w a))\<rparr>"

text \<open>
  \<^verbatim>\<open>TIGHTDB_ASSERT\<close> comes from \<^verbatim>\<open>tightdb/util/assert.hpp\<close>, which is not among
  the sources at hand: where the build checks assertions a false one ends the process,
  elsewhere it does nothing.
\<close>

definition TIGHTDB_ASSERT :: "bool \<Rightarrow> world \<Rightarrow> unit exit \<times> world" where
  "TIGHTDB_ASSERT cond w = (if asserts w \<and> \<not> cond then (Terminated, w) else (Returned (), w))"

text \<open>Sequencing: the second step runs only when the first one returned.\<close>

definition and_then ::
  "'a exit \<times> world \<Rightarrow> ('a \<Rightarrow> world \<Rightarrow> 'b exit \<times> world) \<Rightarrow> 'b exit \<times> world" where
  "and_then r f =
     (case r of
        (Returned a, w) \<Rightarrow> f a w
      | (Thrown e, w) \<Rightarrow> (Thrown e, w)
      | (Terminated, w) \<Rightarrow> (Terminated, w))"


section \<open>Mutex and its guards (thread.hpp, lines 412-494)\<close>

text \<open>
  The errno values are the platform's (here Linux's); the code only tests a return code
  against 0 and against \<^verbatim>\<open>ETIMEDOUT\<close>.
\<close>

definition EPERM :: int where "EPERM = 1"
definition ETIMEDOUT :: int where "ETIMEDOUT = 110"

text \<open>
  The mutex as the calling thread meets it. \<^verbatim>\<open>Mutex::init_as_regular\<close> calls
  \<^verbatim>\<open>pthread_mutex_init(&m_impl, 0)\<close>: a default mutex, which keeps no check of its
  owner. \<^verbatim>\<open>init_as_process_shared\<close>, which \<^verbatim>\<open>RobustMutex\<close> uses, is defined
  outside the sources at hand; a robust mutex checks its owner on unlock.
  \<open>owner_checked\<close> tells which of the two the world's mutex is.

  Locking a mutex the thread does not own succeeds (the time spent blocked on other
  owners is not modelled). Locking one it owns is not detected: the call never returns.
  Unlocking one it owns succeeds. Unlocking one it does not own answers 0 on a default
  mutex, and is an error that changes nothing on one that checks its owner.
\<close>

definition pthread_mutex_lock :: "world \<Rightarrow> (int \<times> world) option" where
  "pthread_mutex_lock w =
     (if held w then None else Some (0, record_event MutexLock (w\<lparr>held := True\<rparr>)))"

definition pthread_mutex_unlock :: "world \<Rightarrow> int \<times> world" where
  "pthread_mutex_unlock w =
     (if held w \<or> \<not> owner_checked w
      then (0, record_event MutexUnlock (w\<lparr>held := False\<rparr>))
      else (EPERM, w))"

text \<open>
  \<^verbatim>\<open>Mutex::lock()\<close>; \<^verbatim>\<open>lock_failed\<close> is \<^verbatim>\<open>TIGHTDB_NORETURN\<close> and
  \<^verbatim>\<open>TIGHTDB_NOEXCEPT\<close>.
\<close>

definition Mutex_lock :: "world \<Rightarrow> (unit exit \<times> world) option" where
  "Mutex_lock w =
     (case pthread_mutex_lock w of
        None \<Rightarrow> None
      | Some (r, w') \<Rightarrow> Some (if r = 0 then (Returned (), w') else (Terminated, w')))"

text \<open>\<^verbatim>\<open>Mutex::unlock()\<close>\<close>

definition Mutex_unlock :: "world \<Rightarrow> unit exit \<times> world" where
  "Mutex_unlock w =
     (let (r, w') = pthread_mutex_unlock w
      in TIGHTDB_ASSERT (r = 0) w')"

text \<open>Sequencing with a first step that can block.\<close>

definition then_do ::
  "('a exit \<times> world) option \<Rightarrow> ('a \<Rightarrow> world \<Rightarrow> ('b exit \<times> world) option)
     \<Rightarrow> ('b exit \<times> world) option" where
  "then_do r f =
     (case r of
        None \<Rightarrow> None
      | Some (Returned a, w) \<Rightarrow> f a w
      | Some (Thrown e, w) \<Rightarrow> Some (Thrown e, w)
      | Some (Terminated, w) \<Rightarrow> Some (Terminated, w))"

text \<open>
  \<^verbatim>\<open>LockGuard\<close> holds nothing but the reference \<open>m_mutex\<close>; the world has one mutex,
  so the guard has no state of its own.
\<close>

definition LockGuard_ctor :: "world \<Rightarrow> (unit exit \<times> world) option" where
  "LockGuard_ctor w = Mutex_lock w"

definition LockGuard_dtor :: "world \<Rightarrow> unit exit \<times> world" where
  "LockGuard_dtor w = Mutex_unlock w"

text \<open>\<^verbatim>\<open>UniqueLock\<close>: \<open>m_mutex\<close> points to the world's mutex.\<close>

record UniqueLock =
  m_is_locked :: bool

text \<open>\<^verbatim>\<open>UniqueLock::UniqueLock(Mutex&)\<close>\<close>

definition UniqueLock_ctor :: "world \<Rightarrow> (UniqueLock exit \<times> world) option" where
  "UniqueLock_ctor w =
     then_do (Mutex_lock w) (\<lambda>_ w'. Some (Returned \<lparr>m_is_locked = True\<rparr>, w'))"

text \<open>\<^verbatim>\<open>UniqueLock::UniqueLock(Mutex&, defer_lock_tag)\<close>\<close>

definition UniqueLock_ctor_defer :: "world \<Rightarrow> UniqueLock exit \<times> world" where
  "UniqueLock_ctor_defer w = (Returned \<lparr>m_is_locked = False\<rparr>, w)"

text \<open>\<^verbatim>\<open>UniqueLock::~UniqueLock()\<close>\<close>

definition UniqueLock_dtor :: "UniqueLock \<Rightarrow> world \<Rightarrow> unit exit \<times> world" where
  "UniqueLock_dtor g w = (if m_is_locked g then Mutex_unlock w else (Returned (), w))"

text \<open>\<^verbatim>\<open>UniqueLock::lock()\<close>\<close>

definition UniqueLock_lock :: "UniqueLock \<Rightarrow> world \<Rightarrow> (UniqueLock exit \<times> world) option" where
  "UniqueLock_lock g w =
     then_do (Mutex_lock w) (\<lambda>_ w'. Some (Returned (g\<lparr>m_is_locked := True\<rparr>), w'))"

text \<open>\<^verbatim>\<open>UniqueLock::unlock()\<close>\<close>

definition UniqueLock_unlock :: "UniqueLock \<Rightarrow> world \<Rightarrow> UniqueLock exit \<times> world" where
  "UniqueLock_unlock g w =
     and_then (Mutex_unlock w) (\<lambda>_ w'. (Returned (g\<lparr>m_is_locked := False\<rparr>), w'))"

text \<open>
  What a scope does with its guard between construction and destruction: any sequence
  of \<open>lock()\<close> and \<open>unlock()\<close> calls. A scope left early, by an exception or a return,
  has run a prefix of its calls, which is again such a sequence.
\<close>

datatype guard_op = Lock | Unlock

fun UniqueLock_ops ::
  "guard_op list \<Rightarrow> UniqueLock \<Rightarrow> world \<Rightarrow> (UniqueLock exit \<times> world) option" where
  "UniqueLock_ops [] g w = Some (Returned g, w)"
| "UniqueLock_ops (Lock # ops) g w = then_do (UniqueLock_lock g w) (UniqueLock_ops ops)"
| "UniqueLock_ops (Unlock # ops) g w =
     then_do (Some (UniqueLock_unlock g w)) (UniqueLock_ops ops)"

text \<open>A scope: construction (deferred or not), the calls, the destructor.\<close>

definition UniqueLock_scope ::
  "bool \<Rightarrow> guard_op list \<Rightarrow> world \<Rightarrow> (unit exit \<times> world) option" where
  "UniqueLock_scope deferred ops w =
     then_do (if deferred then Some (UniqueLock_ctor_defer w) else UniqueLock_ctor w)
       (\<lambda>g w1. then_do (UniqueLock_ops ops g w1) (\<lambda>g' w'. Some (UniqueLock_dtor g' w')))"

text \<open>
  A scope that uses its guard as meant: \<open>lock()\<close> only while the flag is clear,
  \<open>unlock()\<close> only while it is set. The first argument is the flag before the calls.
\<close>

fun disciplined :: "bool \<Rightarrow> guard_op list \<Rightarrow> bool" where
  "disciplined locked [] = True"
| "disciplined locked (Lock # ops) = (\<not> locked \<and> disciplined True ops)"
| "disciplined locked (Unlock # ops) = (locked \<and> disciplined False ops)"


section \<open>RobustMutex (thread.hpp, lines 510-547)\<close>

text \<open>
  Modelled from the spec: \<^verbatim>\<open>RobustMutex::low_level_lock()\<close> and
  \<^verbatim>\<open>mark_as_consistent()\<close> are declared in thread.hpp and defined outside the sources
  at hand. \<open>low_level_lock\<close> takes what the call answers as a parameter: \<open>Returned True\<close>
  (locked, state consistent), \<open>Returned False\<close> (locked, a holder died),
  \<open>Thrown NotRecoverable\<close> or \<open>Terminated\<close>. A call that returns has acquired the mutex.
\<close>

definition low_level_lock :: "bool exit \<Rightarrow> world \<Rightarrow> bool exit \<times> world" where
  "low_level_lock answer w =
     (case answer of
        Returned b \<Rightarrow> (Returned b, record_event LowLevelLock (w\<lparr>held := True\<rparr>))
      | Thrown e \<Rightarrow> (Thrown e, record_event LowLevelLock w)
      | Terminated \<Rightarrow> (Terminated, record_event LowLevelLock w))"

definition mark_as_consistent :: "world \<Rightarrow> unit exit \<times> world" where
  "mark_as_consistent w = (Returned (), record_event MarkAsConsistent w)"

text \<open>
  The recovery callback is the caller's; \<open>answer\<close> is how this call of it ends.
\<close>

definition recover_func :: "unit exit \<Rightarrow> world \<Rightarrow> unit exit \<times> world" where
  "recover_func answer w = (answer, record_event RecoverFunc w)"

text \<open>\<^verbatim>\<open>RobustMutex::unlock()\<close>\<close>

definition RobustMutex_unlock :: "world \<Rightarrow> unit exit \<times> world" where
  "RobustMutex_unlock w = Mutex_unlock w"

text \<open>
  The block \<^verbatim>\<open>try { recover_func(); mark_as_consistent(); } catch (...) { unlock(); throw; }\<close>,
  which \<^verbatim>\<open>RobustMutex::lock\<close> and \<^verbatim>\<open>CondVar::wait\<close> both hold.
\<close>

definition try_recover :: "unit exit \<Rightarrow> world \<Rightarrow> unit exit \<times> world" where
  "try_recover answer w =
     (case recover_func answer w of
        (Returned u, w1) \<Rightarrow> mark_as_consistent w1
      | (Thrown e, w1) \<Rightarrow> and_then (RobustMutex_unlock w1) (\<lambda>_ w2. (Thrown e, w2))
      | (Terminated, w1) \<Rightarrow> (Terminated, w1))"

text \<open>\<^verbatim>\<open>template<class Func> void RobustMutex::lock(Func recover_func)\<close>\<close>

definition RobustMutex_lock :: "bool exit \<Rightarrow> unit exit \<Rightarrow> world \<Rightarrow> unit exit \<times> world" where
  "RobustMutex_lock lll rf w =
     and_then (low_level_lock lll w)
       (\<lambda>no_thread_has_died w1.
          if no_thread_has_died then (Returned (), w1)
          else try_recover rf w1)"


section \<open>CondVar (thread.hpp, lines 550-757)\<close>

record CondVar =
  m_shared_part :: "addr option"   \<comment> \<open>\<open>None\<close>: the null pointer\<close>
  m_sem :: "nat option"            \<comment> \<open>\<^verbatim>\<open>sem_t*\<close>; non-null if emulation is used\<close>
  m_cond :: "addr option"          \<comment> \<open>non-null if process local\<close>

text \<open>
  The \<^verbatim>\<open>pthread_cond_t* cond\<close> the native calls are made on: \<open>m_cond\<close>, or, in a build
  without emulation and with a shared part registered, \<^verbatim>\<open>&m_shared_part->m_impl\<close>.
\<close>

definition native_cond :: "CondVar \<Rightarrow> world \<Rightarrow> cond_ptr" where
  "native_cond c w =
     (case (if emulation w then None else m_shared_part c) of
        Some a \<Rightarrow> SharedCond a
      | None \<Rightarrow> (case m_cond c of Some p \<Rightarrow> PrivateCond p | None \<Rightarrow> NullCond))"

text \<open>
  \<^verbatim>\<open>CondVar::close()\<close>. \<open>r\<close> is what \<^verbatim>\<open>pthread_cond_destroy\<close> answers;
  \<^verbatim>\<open>destroy_failed\<close> is \<^verbatim>\<open>TIGHTDB_NORETURN\<close> and \<^verbatim>\<open>TIGHTDB_NOEXCEPT\<close>.
\<close>

definition pthread_cond_destroy :: "int \<Rightarrow> addr \<Rightarrow> world \<Rightarrow> int \<times> world" where
  "pthread_cond_destroy r p w =
     (r, record_event (CondDestroy (PrivateCond p))
           (if r = 0 then w\<lparr>conds := (conds w)(p \<mapsto> CondDestroyed)\<rparr> else w))"

definition delete_cond :: "addr \<Rightarrow> world \<Rightarrow> world" where
  "delete_cond p w = record_event (CondDelete (PrivateCond p)) (w\<lparr>conds := (conds w)(p := None)\<rparr>)"

definition CondVar_close :: "int \<Rightarrow> CondVar \<Rightarrow> world \<Rightarrow> CondVar exit \<times> world" where
  "CondVar_close r c w =
     (if m_sem c \<noteq> None then (Returned (c\<lparr>m_sem := None\<rparr>), record_event SemClose w)
      else
        (case m_cond c of
           Some p \<Rightarrow>
             (let (r', w1) = pthread_cond_destroy r p w in
              if r' \<noteq> 0 then (Terminated, w1)
              else (Returned (c\<lparr>m_cond := None, m_shared_part := None\<rparr>), delete_cond p w1))
         | None \<Rightarrow> (Returned (c\<lparr>m_shared_part := None\<rparr>), w)))"

subsection \<open>The emulation on a semaphore\<close>

definition sem_post :: "world \<Rightarrow> world" where
  "sem_post w = record_event SemPost (w\<lparr>sem := sem w + 1\<rparr>)"

definition sched_yield :: "world \<Rightarrow> world" where
  "sched_yield w = record_event SchedYield w"

text \<open>
  While the thread is blocked without the mutex, the other threads and processes change
  the shared memory and the semaphore: \<open>others\<close> is what they have done by the time this
  \<^verbatim>\<open>sem_wait\<close> takes its permit and the thread has the mutex again. If no permit is
  left then, the call never returns (\<open>None\<close>). The code does not look at what
  \<^verbatim>\<open>sem_wait\<close> returns; a call cut short by a signal leaves the semaphore as a call
  does that took a permit some other thread had just posted, so \<open>others\<close> covers it.
\<close>

type_synonym others = "(addr \<Rightarrow> SharedPart) \<times> nat \<Rightarrow> (addr \<Rightarrow> SharedPart) \<times> nat"

definition sem_wait :: "others \<Rightarrow> world \<Rightarrow> world option" where
  "sem_wait env w =
     (let (m, n) = env (shm w, sem w)
      in if n = 0 then None else Some (record_event SemWait (w\<lparr>shm := m, sem := n - 1\<rparr>)))"

text \<open>The accesses to the \<open>SharedPart\<close> at address \<open>a\<close>.\<close>

definition waiters_inc :: "addr \<Rightarrow> world \<Rightarrow> world" where
  "waiters_inc a w = record_event WaitersInc (at_shared_part a (\<lambda>s. s\<lparr>waiters := waiters s + 1\<rparr>) w)"

definition waiters_dec :: "addr \<Rightarrow> world \<Rightarrow> world" where
  "waiters_dec a w = record_event WaitersDec (at_shared_part a (\<lambda>s. s\<lparr>waiters := waiters s - 1\<rparr>) w)"

definition signal_counter_inc :: "addr \<Rightarrow> world \<Rightarrow> world" where
  "signal_counter_inc a w =
     record_event SignalInc (at_shared_part a (\<lambda>s. s\<lparr>signal_counter := signal_counter s + 1\<rparr>) w)"

definition signal_counter_read :: "addr \<Rightarrow> world \<Rightarrow> 64 word \<times> world" where
  "signal_counter_read a w =
     (signal_counter (shm w a), record_event (SignalRead (signal_counter (shm w a))) w)"

text \<open>
  The \<^verbatim>\<open>for (;;)\<close> loop of the two \<^verbatim>\<open>wait\<close> overloads. The overloads differ only
  in how they take the mutex again (\<^verbatim>\<open>l.m_mutex.lock()\<close>, \<^verbatim>\<open>m.lock(recover_func)\<close>);
  \<open>lock i\<close> is that call in iteration \<open>i\<close> (\<open>None\<close> if it never returns). Both release
  it through \<^verbatim>\<open>Mutex::unlock()\<close>. \<open>env i\<close> is what the other threads do during iteration \<open>i\<close>.
\<close>

partial_function (option) wait_loop ::
  "(nat \<Rightarrow> others) \<Rightarrow> (nat \<Rightarrow> world \<Rightarrow> (unit exit \<times> world) option) \<Rightarrow> addr \<Rightarrow> 64 word \<Rightarrow> nat
     \<Rightarrow> world \<Rightarrow> (unit exit \<times> world) option" where
  "wait_loop env lock a my_counter i w =
     (case sem_wait (env i) w of
        None \<Rightarrow> None
      | Some w1 \<Rightarrow>
         (case lock i w1 of
            None \<Rightarrow> None
          | Some (Returned u, w2) \<Rightarrow>
              (let (now, w3) = signal_counter_read a w2 in
               if now \<noteq> my_counter then Some (Returned (), w3)
               else
                 (case Mutex_unlock (sched_yield (sem_post w3)) of
                    (Returned u', w4) \<Rightarrow> wait_loop env lock a my_counter (Suc i) w4
                  | (Thrown e, w4) \<Rightarrow> Some (Thrown e, w4)
                  | (Terminated, w4) \<Rightarrow> Some (Terminated, w4)))
          | Some (Thrown e, w2) \<Rightarrow> Some (Thrown e, w2)
          | Some (Terminated, w2) \<Rightarrow> Some (Terminated, w2)))"

text \<open>The emulated branch of \<^verbatim>\<open>wait\<close>, from \<^verbatim>\<open>waiters++\<close> on.\<close>

definition wait_emulated ::
  "(nat \<Rightarrow> others) \<Rightarrow> (nat \<Rightarrow> world \<Rightarrow> (unit exit \<times> world) option) \<Rightarrow> addr \<Rightarrow> world
     \<Rightarrow> (unit exit \<times> world) option" where
  "wait_emulated env lock a w =
     (let w1 = waiters_inc a w;
          (my_counter, w2) = signal_counter_read a w1
      in case Mutex_unlock w2 of
           (Returned u, w3) \<Rightarrow> wait_loop env lock a my_counter 0 w3
         | (Thrown e, w3) \<Rightarrow> Some (Thrown e, w3)
         | (Terminated, w3) \<Rightarrow> Some (Terminated, w3))"

text \<open>
  \<^verbatim>\<open>CondVar::wait(LockGuard&)\<close>. A null \<open>m_shared_part\<close> fails the assertion or is
  dereferenced: the process ends either way. \<open>r\<close> is what \<^verbatim>\<open>pthread_cond_wait\<close>
  answers on the native path.
\<close>

definition CondVar_wait ::
  "(nat \<Rightarrow> others) \<Rightarrow> int \<Rightarrow> CondVar \<Rightarrow> world \<Rightarrow> (unit exit \<times> world) option" where
  "CondVar_wait env r c w =
     (if emulation w \<and> m_sem c \<noteq> None then
        (case m_shared_part c of
           None \<Rightarrow> Some (Terminated, w)
         | Some a \<Rightarrow> wait_emulated env (\<lambda>i. Mutex_lock) a w)
      else
        (let w1 = record_event (CondWait (native_cond c w)) w
         in if r \<noteq> 0 then Some (Terminated, w1) else Some (Returned (), w1)))"

text \<open>
  \<^verbatim>\<open>CondVar::handle_wait_error\<close> is declared in thread.hpp and defined outside the
  sources at hand: \<open>hwe r\<close> is how its call on \<open>r\<close> ends.
\<close>

definition handle_wait_error :: "(int \<Rightarrow> unit exit) \<Rightarrow> int \<Rightarrow> world \<Rightarrow> unit exit \<times> world" where
  "handle_wait_error hwe r w = (hwe r, record_event (HandleWaitError r) w)"

type_synonym timespec = "int \<times> int"

text \<open>
  \<^verbatim>\<open>CondVar::wait(RobustMutex&, Func, const timespec*)\<close>. \<open>lll i\<close> and \<open>rf i\<close> are the
  answers of \<open>low_level_lock\<close> and of the recovery callback in iteration \<open>i\<close> of the
  emulation; on the native path \<open>r\<close> is what \<^verbatim>\<open>pthread_cond_wait\<close> or
  \<^verbatim>\<open>pthread_cond_timedwait\<close> answers and \<open>rf 0\<close> the callback's answer.
\<close>

definition CondVar_wait_robust ::
  "(nat \<Rightarrow> others) \<Rightarrow> (nat \<Rightarrow> bool exit) \<Rightarrow> (nat \<Rightarrow> unit exit) \<Rightarrow> (int \<Rightarrow> unit exit) \<Rightarrow> int
     \<Rightarrow> timespec option \<Rightarrow> CondVar \<Rightarrow> world \<Rightarrow> (unit exit \<times> world) option" where
  "CondVar_wait_robust env lll rf hwe r tp c w =
     (if emulation w \<and> m_sem c \<noteq> None then
        (case m_shared_part c of
           None \<Rightarrow> Some (Terminated, w)
         | Some a \<Rightarrow>
            (case TIGHTDB_ASSERT (tp = None) w of
               (Returned u, w0) \<Rightarrow>
                 wait_emulated env (\<lambda>i v. Some (RobustMutex_lock (lll i) (rf i) v)) a w0
             | (Thrown e, w0) \<Rightarrow> Some (Thrown e, w0)
             | (Terminated, w0) \<Rightarrow> Some (Terminated, w0)))
      else
        (let cond = native_cond c w;
             w1 = record_event (case tp of None \<Rightarrow> CondWait cond | Some t \<Rightarrow> CondTimedWait cond) w
         in if tp \<noteq> None \<and> r = ETIMEDOUT then Some (Returned (), w1)
            else if r = 0 then Some (Returned (), w1)
            else Some (and_then (handle_wait_error hwe r w1) (\<lambda>_. try_recover (rf 0)))))"

text \<open>
  \<^verbatim>\<open>CondVar::notify()\<close>; \<open>r\<close> is what \<^verbatim>\<open>pthread_cond_signal\<close> answers on the native
  path.
\<close>

definition CondVar_notify :: "int \<Rightarrow> CondVar \<Rightarrow> world \<Rightarrow> unit exit \<times> world" where
  "CondVar_notify r c w =
     (if emulation w \<and> m_sem c \<noteq> None then
        (case m_shared_part c of
           None \<Rightarrow> (Terminated, w)
         | Some a \<Rightarrow>
            (let w1 = signal_counter_inc a w in
             if waiters (shm w1 a) \<noteq> 0 then (Returned (), waiters_dec a (sem_post w1))
             else (Returned (), w1)))
      else TIGHTDB_ASSERT (r = 0) (record_event (CondSignal (native_cond c w)) w))"

text \<open>The \<^verbatim>\<open>while (m_shared_part->waiters)\<close> loop of \<^verbatim>\<open>notify_all\<close>.\<close>

function notify_all_loop :: "addr \<Rightarrow> world \<Rightarrow> world" where
  "notify_all_loop a w =
     (if waiters (shm w a) \<noteq> 0 then notify_all_loop a (waiters_dec a (sem_post w)) else w)"
  by pat_completeness auto
termination
proof (relation "measure (\<lambda>(a, w). unat (waiters (shm w a)))")
  show "wf (measure (\<lambda>(a, w). unat (waiters (shm w a))))"
    by simp
next
  fix a :: addr and w :: world
  assume "waiters (shm w a) \<noteq> 0"
  then have "unat (waiters (shm w a) - 1) < unat (waiters (shm w a))"
    by (simp add: unat_minus_one unat_gt_0)
  then show "((a, waiters_dec a (sem_post w)), (a, w)) \<in> measure (\<lambda>(a, w). unat (waiters (shm w a)))"
    by (simp add: waiters_dec_def sem_post_def record_event_def at_shared_part_def)
qed

text \<open>
  \<^verbatim>\<open>CondVar::notify_all()\<close>; \<open>r\<close> is what \<^verbatim>\<open>pthread_cond_broadcast\<close> answers on the
  native path.
\<close>

definition CondVar_notify_all :: "int \<Rightarrow> CondVar \<Rightarrow> world \<Rightarrow> unit exit \<times> world" where
  "CondVar_notify_all r c w =
     (if emulation w \<and> m_sem c \<noteq> None then
        (case m_shared_part c of
           None \<Rightarrow> (Terminated, w)
         | Some a \<Rightarrow> (Returned (), notify_all_loop a (signal_counter_inc a w)))
      else TIGHTDB_ASSERT (r = 0) (record_event (CondBroadcast (native_cond c w)) w))"


section \<open>Atomic (thread.hpp, lines 802-1166)\<close>

record 'a Atomic =
  state :: 'a

text \<open>
  The three primitives the variants of \<^verbatim>\<open>compare_and_swap\<close> call, each one atomic
  step on the cell, as the C++11 standard and the GCC manual define them. A primitive
  takes the cell and gives back the cell and what the call hands to its caller.

  \<^verbatim>\<open>std::atomic<T>::compare_exchange_weak(expected, desired)\<close>: \<open>spurious\<close> says
  whether this call fails although the cell holds the expected value. On failure the
  observed value is written to \<open>expected\<close>. The result is
  (returned flag, cell, \<open>expected\<close>).
\<close>

definition compare_exchange_weak ::
  "bool \<Rightarrow> 'a Atomic \<Rightarrow> 'a \<Rightarrow> 'a \<Rightarrow> bool \<times> 'a Atomic \<times> 'a" where
  "compare_exchange_weak spurious c expected desired =
     (if state c = expected \<and> \<not> spurious then (True, c\<lparr>state := desired\<rparr>, expected)
      else (False, c, state c))"

text \<open>
  \<^verbatim>\<open>__atomic_compare_exchange_n(ptr, expected, desired, weak, ...)\<close>: with
  \<open>weak = False\<close> it is the strong variation, which never fails spuriously.
\<close>

definition atomic_compare_exchange_n ::
  "bool \<Rightarrow> 'a Atomic \<Rightarrow> 'a \<Rightarrow> 'a \<Rightarrow> bool \<Rightarrow> bool \<times> 'a Atomic \<times> 'a" where
  "atomic_compare_exchange_n spurious c expected desired weak =
     (if state c = expected \<and> \<not> (weak \<and> spurious) then (True, c\<lparr>state := desired\<rparr>, expected)
      else (False, c, state c))"

text \<open>
  \<^verbatim>\<open>__sync_val_compare_and_swap(ptr, oldval, newval)\<close>: stores \<open>newval\<close> if the
  cell holds \<open>oldval\<close>, and returns what the cell held before.
\<close>

definition sync_val_compare_and_swap :: "'a Atomic \<Rightarrow> 'a \<Rightarrow> 'a \<Rightarrow> 'a \<times> 'a Atomic" where
  "sync_val_compare_and_swap c oldval newval =
     (state c, if state c = oldval then c\<lparr>state := newval\<rparr> else c)"

text \<open>
  \<^verbatim>\<open>Atomic<T>::compare_and_swap(T& oldvalue, T newvalue)\<close> in its three variants.
  Each gives (returned flag, cell, \<open>oldvalue\<close> after the call).
\<close>

definition compare_and_swap_cxx11 ::
  "bool \<Rightarrow> 'a Atomic \<Rightarrow> 'a \<Rightarrow> 'a \<Rightarrow> bool \<times> 'a Atomic \<times> 'a" where
  "compare_and_swap_cxx11 spurious c oldvalue newvalue =
     compare_exchange_weak spurious c oldvalue newvalue"

definition compare_and_swap_gcc ::
  "bool \<Rightarrow> 'a Atomic \<Rightarrow> 'a \<Rightarrow> 'a \<Rightarrow> bool \<times> 'a Atomic \<times> 'a" where
  "compare_and_swap_gcc spurious c oldvalue newvalue =
     atomic_compare_exchange_n spurious c oldvalue newvalue False"

definition compare_and_swap_legacy ::
  "'a Atomic \<Rightarrow> 'a \<Rightarrow> 'a \<Rightarrow> bool \<times> 'a Atomic \<times> 'a" where
  "compare_and_swap_legacy c oldvalue newvalue =
     (let ov = oldvalue;
          (oldvalue', c') = sync_val_compare_and_swap c oldvalue newvalue
      in (ov = oldvalue', c', oldvalue'))"

datatype variant = Cxx11 | ModernGcc | LegacySync

text \<open>The variant the build selects; \<open>spurious\<close> plays no part in the legacy one.\<close>

fun compare_and_swap ::
  "variant \<Rightarrow> bool \<Rightarrow> 'a Atomic \<Rightarrow> 'a \<Rightarrow> 'a \<Rightarrow> bool \<times> 'a Atomic \<times> 'a" where
  "compare_and_swap Cxx11 spurious c oldvalue newvalue =
     compare_and_swap_cxx11 spurious c oldvalue newvalue"
| "compare_and_swap ModernGcc spurious c oldvalue newvalue =
     compare_and_swap_gcc spurious c oldvalue newvalue"
| "compare_and_swap LegacySync spurious c oldvalue newvalue =
     compare_and_swap_legacy c oldvalue newvalue"


section \<open>Benchmark results: the median (results.cpp, lines 177-191)\<close>

text \<open>
  \<^verbatim>\<open>std::vector::operator[]\<close> does not check its index; a read at or past
  \<^verbatim>\<open>size()\<close> is undefined behaviour. The model makes it a value.
\<close>

datatype undefined_behaviour = OutOfBoundsRead nat nat   \<comment> \<open>index, size\<close>

definition vec_index :: "'a list \<Rightarrow> nat \<Rightarrow> undefined_behaviour + 'a" where
  "vec_index v i = (if i < length v then Inr (v ! i) else Inl (OutOfBoundsRead i (length v)))"

record 'a Result =
  r_min :: 'a
  r_max :: 'a
  r_median :: 'a
  r_rep :: nat

text \<open>
  The block "Compute min/max/median" of \<^verbatim>\<open>Results::Measurement::finish\<close>, on the
  sorted copy \<open>samples\<close>. The samples are \<^verbatim>\<open>double\<close>s; the model is generic in
  their type, and \<open>half_sum a b\<close> stands for the \<^verbatim>\<open>double\<close> expression
  \<^verbatim>\<open>(a + b) / 2\<close>. \<open>r\<close> is the \<^verbatim>\<open>Result\<close> as built so far.
\<close>

definition finish_min_max_median ::
  "('a \<Rightarrow> 'a \<Rightarrow> 'a) \<Rightarrow> 'a Result \<Rightarrow> 'a list \<Rightarrow> undefined_behaviour + 'a Result" where
  "finish_min_max_median half_sum r samples =
     (let r1 = r\<lparr>r_rep := length samples\<rparr> in
      if r_rep r1 > 0 then
        (let r2 = r1\<lparr>r_min := hd samples, r_max := last samples\<rparr> in
         if r_rep r2 mod 2 = 0 then
           (case vec_index samples (r_rep r2 div 2) of
              Inl ub \<Rightarrow> Inl ub
            | Inr a \<Rightarrow>
               (case vec_index samples (r_rep r2 div 2 + 1) of
                  Inl ub \<Rightarrow> Inl ub
                | Inr b \<Rightarrow> Inr (r2\<lparr>r_median := half_sum a b\<rparr>)))
         else
           (case vec_index samples (r_rep r2 div 2) of
              Inl ub \<Rightarrow> Inl ub
            | Inr a \<Rightarrow> Inr (r2\<lparr>r_median := a\<rparr>)))
      else Inr r1)"


section \<open>Call sequences and example inputs\<close>

text \<open>
  The calls a \<^verbatim>\<open>RobustMutex::lock\<close> that returns has made, by what \<open>low_level_lock\<close>
  answered: on \<open>true\<close> the one call, otherwise the callback and
  \<open>mark_as_consistent\<close> as well.
\<close>

definition lock_calls :: "bool exit \<Rightarrow> event list" where
  "lock_calls answer =
     (if answer = Returned True then [LowLevelLock]
      else [LowLevelLock, RecoverFunc, MarkAsConsistent])"

text \<open>
  The calls of one round of the \<open>wait\<close> loop that found the counter unchanged; \<open>ev j\<close>
  are the calls of taking the mutex in round \<open>j\<close>.
\<close>

definition retry_calls :: "(nat \<Rightarrow> event list) \<Rightarrow> 64 word \<Rightarrow> nat \<Rightarrow> event list" where
  "retry_calls ev c j = SemWait # ev j @ [SignalRead c, SemPost, SchedYield, MutexUnlock]"

text \<open>Concrete worlds and handles, for the example runs.\<close>

definition idle_world :: world where
  "idle_world =
     \<lparr>shm = (\<lambda>_. \<lparr>signal_counter = 0, waiters = 0, m_impl = CondInitialized\<rparr>),
      sem = 0, conds = Map.empty, held = False, owner_checked = False, asserts = True,
      emulation = True,
      trace = []\<rparr>"

definition waiting_world :: world where
  "waiting_world = idle_world\<lparr>held := True\<rparr>"

definition two_waiters_world :: world where
  "two_waiters_world =
     waiting_world\<lparr>shm := (\<lambda>_. \<lparr>signal_counter = 0, waiters = 2, m_impl = CondInitialized\<rparr>)\<rparr>"

definition native_world :: world where
  "native_world = waiting_world\<lparr>emulation := False\<rparr>"

definition shared_condvar :: CondVar where
  "shared_condvar = \<lparr>m_shared_part = Some 0, m_sem = Some 0, m_cond = None\<rparr>"

definition native_condvar :: CondVar where
  "native_condvar = \<lparr>m_shared_part = Some 0, m_sem = None, m_cond = None\<rparr>"

definition local_condvar :: CondVar where
  "local_condvar = \<lparr>m_shared_part = None, m_sem = None, m_cond = Some 7\<rparr>"

text \<open>
  Other threads, seen from a waiter: during its first round another waiter puts a permit
  back; during every later round a notifier runs.
\<close>

definition late_notifier :: "nat \<Rightarrow> others" where
  "late_notifier j =
     (\<lambda>(m, n). if j = 0 then (m, n + 1)
               else (m(0 := (m 0)\<lparr>signal_counter := signal_counter (m 0) + 1,
                                  waiters := waiters (m 0) - 1\<rparr>), n + 1))"


section \<open>Theorems\<close>

subsection \<open>Mutex and its guards\<close>

lemma Mutex_lock_result:
  "Mutex_lock w =
     (if held w then None else Some (Returned (), record_event MutexLock (w\<lparr>held := True\<rparr>)))"
  by (simp add: Mutex_lock_def pthread_mutex_lock_def)

lemma Mutex_lock_Returned:
  "Mutex_lock w = Some (Returned u, w') \<longleftrightarrow>
     \<not> held w \<and> w' = record_event MutexLock (w\<lparr>held := True\<rparr>)"
  by (auto simp: Mutex_lock_result)

lemma Mutex_unlock_Returned:
  "Mutex_unlock w = (Returned u, w') \<longleftrightarrow>
     (if held w \<or> \<not> owner_checked w then w' = record_event MutexUnlock (w\<lparr>held := False\<rparr>)
      else \<not> asserts w \<and> w' = w)"
  by (auto simp: Mutex_unlock_def pthread_mutex_unlock_def TIGHTDB_ASSERT_def EPERM_def)

lemma Mutex_unlock_held:
  "held w \<Longrightarrow> Mutex_unlock w = (Returned (), record_event MutexUnlock (w\<lparr>held := False\<rparr>))"
  by (simp add: Mutex_unlock_def pthread_mutex_unlock_def TIGHTDB_ASSERT_def)

lemma and_then_Returned:
  "and_then r f = (Returned b, w') \<longleftrightarrow> (\<exists>a w1. r = (Returned a, w1) \<and> f a w1 = (Returned b, w'))"
  by (auto simp: and_then_def split: prod.splits exit.splits)

lemma then_do_Returned:
  "then_do r f = Some (Returned b, w') \<longleftrightarrow>
     (\<exists>a w1. r = Some (Returned a, w1) \<and> f a w1 = Some (Returned b, w'))"
  by (auto simp: then_do_def split: option.splits prod.splits exit.splits)

lemma concat_replicate_snoc:
  "concat (replicate k xs) @ xs = concat (replicate (Suc k) xs)"
  by (induction k) auto

lemma UniqueLock_lock_Returned:
  "UniqueLock_lock g w = Some (Returned g1, w1) \<longleftrightarrow>
     \<not> held w \<and> w1 = record_event MutexLock (w\<lparr>held := True\<rparr>) \<and> g1 = g\<lparr>m_is_locked := True\<rparr>"
  by (auto simp: UniqueLock_lock_def then_do_Returned Mutex_lock_Returned)

lemma UniqueLock_unlock_Returned:
  "UniqueLock_unlock g w = (Returned g1, w1) \<longleftrightarrow>
     g1 = g\<lparr>m_is_locked := False\<rparr> \<and>
     (if held w \<or> \<not> owner_checked w then w1 = record_event MutexUnlock (w\<lparr>held := False\<rparr>)
      else \<not> asserts w \<and> w1 = w)"
  by (auto simp: UniqueLock_unlock_def and_then_Returned Mutex_unlock_Returned)

text \<open>
  The invariant of a guard's life: the flag tells the ownership, and the history on the
  mutex since \<open>t0\<close> is a row of blocks, a lock with its unlock or an unlock alone,
  followed by the open lock if the mutex is held.
\<close>

lemma UniqueLock_ops_invariant:
  assumes "UniqueLock_ops ops g w = Some (Returned g', w')"
    and "m_is_locked g = held w"
    and "set bs \<subseteq> {[MutexLock, MutexUnlock], [MutexUnlock]}"
    and "trace w = t0 @ concat bs @ (if held w then [MutexLock] else [])"
  shows "m_is_locked g' = held w' \<and>
    (\<exists>bs'. set bs' \<subseteq> {[MutexLock, MutexUnlock], [MutexUnlock]} \<and>
       trace w' = t0 @ concat bs' @ (if held w' then [MutexLock] else []))"
  using assms
proof (induction ops g w arbitrary: bs rule: UniqueLock_ops.induct)
  case (1 g w)
  then show ?case by auto
next
  case (2 ops g w)
  from "2.prems"(1) obtain g1 w1 where
    step: "UniqueLock_lock g w = Some (Returned g1, w1)"
    and rest: "UniqueLock_ops ops g1 w1 = Some (Returned g', w')"
    by (auto simp: then_do_Returned)
  from step have nh: "\<not> held w" and w1: "w1 = record_event MutexLock (w\<lparr>held := True\<rparr>)"
    and g1: "g1 = g\<lparr>m_is_locked := True\<rparr>"
    by (simp_all add: UniqueLock_lock_Returned)
  have "m_is_locked g1 = held w1"
    by (simp add: w1 g1 record_event_def)
  moreover have "trace w1 = t0 @ concat bs @ (if held w1 then [MutexLock] else [])"
    using "2.prems"(4) nh by (simp add: w1 record_event_def)
  ultimately show ?case
    using "2.IH" [OF rest _ "2.prems"(3)] by blast
next
  case (3 ops g w)
  from "3.prems"(1) obtain g1 w1 where
    step: "UniqueLock_unlock g w = (Returned g1, w1)"
    and rest: "UniqueLock_ops ops g1 w1 = Some (Returned g', w')"
    by (auto simp: then_do_Returned)
  from step have g1: "g1 = g\<lparr>m_is_locked := False\<rparr>"
    and w1: "if held w \<or> \<not> owner_checked w then w1 = record_event MutexUnlock (w\<lparr>held := False\<rparr>)
             else w1 = w"
    by (auto simp: UniqueLock_unlock_Returned split: if_splits)
  have flag: "m_is_locked g1 = held w1"
    using w1 by (auto simp: g1 record_event_def split: if_splits)
  have "\<exists>bs1. set bs1 \<subseteq> {[MutexLock, MutexUnlock], [MutexUnlock]} \<and>
          trace w1 = t0 @ concat bs1 @ (if held w1 then [MutexLock] else [])"
  proof (cases "held w")
    case True
    then have "trace w1 = t0 @ concat (bs @ [[MutexLock, MutexUnlock]]) @ (if held w1 then [MutexLock] else [])"
      using w1 "3.prems"(4) by (simp add: record_event_def)
    moreover have "set (bs @ [[MutexLock, MutexUnlock]]) \<subseteq> {[MutexLock, MutexUnlock], [MutexUnlock]}"
      using "3.prems"(3) by simp
    ultimately show ?thesis by blast
  next
    case False
    show ?thesis
    proof (cases "owner_checked w")
      case True
      with False w1 "3.prems"(3,4) show ?thesis by auto
    next
      case nocheck: False
      then have "trace w1 = t0 @ concat (bs @ [[MutexUnlock]]) @ (if held w1 then [MutexLock] else [])"
        using False w1 "3.prems"(4) by (simp add: record_event_def)
      moreover have "set (bs @ [[MutexUnlock]]) \<subseteq> {[MutexLock, MutexUnlock], [MutexUnlock]}"
        using "3.prems"(3) by simp
      ultimately show ?thesis by blast
    qed
  qed
  then obtain bs1 where "set bs1 \<subseteq> {[MutexLock, MutexUnlock], [MutexUnlock]}"
    and "trace w1 = t0 @ concat bs1 @ (if held w1 then [MutexLock] else [])"
    by blast
  with flag show ?case
    using "3.IH" [OF rest] by blast
qed

lemma UniqueLock_dtor_after_ops:
  assumes inv: "m_is_locked g = held w1"
    and ok: "set bs \<subseteq> {[MutexLock, MutexUnlock], [MutexUnlock]}"
    and tr: "trace w1 = t0 @ concat bs @ (if held w1 then [MutexLock] else [])"
  shows "\<exists>w2 bs'. UniqueLock_dtor g w1 = (Returned (), w2) \<and> \<not> held w2
           \<and> trace w2 = trace w1 @ (if m_is_locked g then [MutexUnlock] else [])
           \<and> set bs' \<subseteq> {[MutexLock, MutexUnlock], [MutexUnlock]}
           \<and> trace w2 = t0 @ concat bs'"
proof (cases "held w1")
  case True
  let ?w2 = "record_event MutexUnlock (w1\<lparr>held := False\<rparr>)"
  have d: "UniqueLock_dtor g w1 = (Returned (), ?w2)"
    using True inv by (simp add: UniqueLock_dtor_def Mutex_unlock_held)
  have "trace ?w2 = t0 @ concat (bs @ [[MutexLock, MutexUnlock]])"
    using True tr by (simp add: record_event_def)
  moreover have "set (bs @ [[MutexLock, MutexUnlock]]) \<subseteq> {[MutexLock, MutexUnlock], [MutexUnlock]}"
    using ok by simp
  moreover have "\<not> held ?w2" "trace ?w2 = trace w1 @ (if m_is_locked g then [MutexUnlock] else [])"
    using True inv by (simp_all add: record_event_def)
  ultimately show ?thesis
    using d by blast
next
  case False
  then have "UniqueLock_dtor g w1 = (Returned (), w1)"
    using inv by (simp add: UniqueLock_dtor_def)
  moreover have "trace w1 = t0 @ concat bs"
    using False tr by simp
  ultimately show ?thesis
    using False inv ok by auto
qed

text \<open>A disciplined sequence of calls returns, and its history is a row of pairs.\<close>

lemma UniqueLock_ops_disciplined:
  assumes "disciplined (m_is_locked g) ops"
    and "m_is_locked g = held w"
    and "trace w = t0 @ concat (replicate k [MutexLock, MutexUnlock]) @ (if held w then [MutexLock] else [])"
  shows "\<exists>g' w' k'. UniqueLock_ops ops g w = Some (Returned g', w') \<and> m_is_locked g' = held w' \<and>
           trace w' = t0 @ concat (replicate k' [MutexLock, MutexUnlock])
                        @ (if held w' then [MutexLock] else [])"
  using assms
proof (induction ops g w arbitrary: k rule: UniqueLock_ops.induct)
  case (1 g w)
  then show ?case by auto
next
  case (2 ops g w)
  let ?g1 = "g\<lparr>m_is_locked := True\<rparr>"
  let ?w1 = "record_event MutexLock (w\<lparr>held := True\<rparr>)"
  from "2.prems" have nh: "\<not> held w" and d: "disciplined (m_is_locked ?g1) ops"
    by simp_all
  then have step: "UniqueLock_lock g w = Some (Returned ?g1, ?w1)"
    by (simp add: UniqueLock_lock_Returned)
  have "m_is_locked ?g1 = held ?w1"
    by (simp add: record_event_def)
  moreover have "trace ?w1 = t0 @ concat (replicate k [MutexLock, MutexUnlock])
                   @ (if held ?w1 then [MutexLock] else [])"
    using "2.prems"(3) nh by (simp add: record_event_def)
  ultimately obtain g' w' k' where "UniqueLock_ops ops ?g1 ?w1 = Some (Returned g', w')"
    and "m_is_locked g' = held w'"
    and "trace w' = t0 @ concat (replicate k' [MutexLock, MutexUnlock])
                        @ (if held w' then [MutexLock] else [])"
    using "2.IH" [OF d] by blast
  with step show ?case
    by (auto simp: then_do_def)
next
  case (3 ops g w)
  let ?g1 = "g\<lparr>m_is_locked := False\<rparr>"
  let ?w1 = "record_event MutexUnlock (w\<lparr>held := False\<rparr>)"
  from "3.prems" have h: "held w" and d: "disciplined (m_is_locked ?g1) ops"
    by simp_all
  then have step: "UniqueLock_unlock g w = (Returned ?g1, ?w1)"
    by (simp add: UniqueLock_unlock_Returned)
  have "m_is_locked ?g1 = held ?w1"
    by (simp add: record_event_def)
  moreover have "trace ?w1 = t0 @ (concat (replicate k [MutexLock, MutexUnlock]) @ [MutexLock, MutexUnlock])"
    using "3.prems"(3) h by (simp add: record_event_def)
  then have "trace ?w1 = t0 @ concat (replicate (Suc k) [MutexLock, MutexUnlock])
                   @ (if held ?w1 then [MutexLock] else [])"
    by (simp only: concat_replicate_snoc) (simp add: record_event_def)
  ultimately obtain g' w' k' where "UniqueLock_ops ops ?g1 ?w1 = Some (Returned g', w')"
    and "m_is_locked g' = held w'"
    and "trace w' = t0 @ concat (replicate k' [MutexLock, MutexUnlock])
                        @ (if held w' then [MutexLock] else [])"
    using "3.IH" [OF d] by blast
  with step show ?case
    by (auto simp: then_do_def)
qed

text \<open>
  C7. Take a thread that does not own the mutex. A \<open>LockGuard\<close> locks at construction,
  and its destructor, which tests nothing, unlocks once. A \<open>UniqueLock\<close> built from the
  mutex alone holds it with the flag set, one built with \<open>defer_lock_tag\<close> does not and
  has the flag clear; \<open>lock()\<close> that returns leaves flag and ownership true (on a mutex
  already held it never returns), \<open>unlock()\<close> that returns leaves both false. After any
  sequence of \<open>lock()\<close> and \<open>unlock()\<close> calls that returned, the flag equals the
  ownership; the destructor then returns, has called unlock exactly if the flag was set,
  and leaves the mutex free. In the thread's history on the mutex since the construction
  every lock is followed at once by its unlock; the only other calls are unlocks made by
  \<open>unlock()\<close> on a guard that held nothing, which a default mutex answers with 0. A
  scope that calls \<open>lock()\<close> only with the flag clear and \<open>unlock()\<close> only with it set
  returns, and its history is a row of lock/unlock pairs and nothing else. A scope left
  early has run a prefix of its calls, which the theorem covers as a sequence of its own.
\<close>

theorem guards_match_lock_and_unlock:
  assumes free: "\<not> held w"
  shows
    "LockGuard_ctor w = Some (Returned (), record_event MutexLock (w\<lparr>held := True\<rparr>))
     \<and> (held w1 \<or> \<not> owner_checked w1 \<longrightarrow>
          LockGuard_dtor w1 = (Returned (), record_event MutexUnlock (w1\<lparr>held := False\<rparr>)))
     \<and> UniqueLock_ctor w =
          Some (Returned \<lparr>m_is_locked = True\<rparr>, record_event MutexLock (w\<lparr>held := True\<rparr>))
     \<and> UniqueLock_ctor_defer w = (Returned \<lparr>m_is_locked = False\<rparr>, w)
     \<and> (UniqueLock_lock g1 w1 = Some (Returned g2, w2) \<longrightarrow> m_is_locked g2 \<and> held w2)
     \<and> (held w1 \<longrightarrow> UniqueLock_lock g1 w1 = None)
     \<and> (UniqueLock_unlock g1 w1 = (Returned g2, w2) \<longrightarrow> \<not> m_is_locked g2 \<and> \<not> held w2)
     \<and> ((if deferred then Some (UniqueLock_ctor_defer w) else UniqueLock_ctor w) = Some (Returned g, w0)
          \<longrightarrow> UniqueLock_ops ops g w0 = Some (Returned g', w')
          \<longrightarrow> m_is_locked g' = held w'
              \<and> (\<exists>w'' bs. UniqueLock_dtor g' w' = (Returned (), w'')
                    \<and> UniqueLock_scope deferred ops w = Some (Returned (), w'')
                    \<and> trace w'' = trace w' @ (if m_is_locked g' then [MutexUnlock] else [])
                    \<and> \<not> held w''
                    \<and> set bs \<subseteq> {[MutexLock, MutexUnlock], [MutexUnlock]}
                    \<and> trace w'' = trace w @ concat bs))
     \<and> (UniqueLock_scope deferred ops w = Some (Returned (), w3)
          \<longrightarrow> \<not> held w3
              \<and> (\<exists>bs. set bs \<subseteq> {[MutexLock, MutexUnlock], [MutexUnlock]}
                    \<and> trace w3 = trace w @ concat bs))
     \<and> (disciplined (\<not> deferred) ops
          \<longrightarrow> (\<exists>w4 k. UniqueLock_scope deferred ops w = Some (Returned (), w4)
                    \<and> \<not> held w4
                    \<and> trace w4 = trace w @ concat (replicate k [MutexLock, MutexUnlock])))"
proof -
  let ?B = "{[MutexLock, MutexUnlock], [MutexUnlock]}"
  let ?built = "if deferred then Some (UniqueLock_ctor_defer w) else UniqueLock_ctor w"
  have ctor: "UniqueLock_ctor w =
      Some (Returned \<lparr>m_is_locked = True\<rparr>, record_event MutexLock (w\<lparr>held := True\<rparr>))"
    using free by (simp add: UniqueLock_ctor_def then_do_def Mutex_lock_result)
  have dctor: "UniqueLock_ctor_defer w = (Returned \<lparr>m_is_locked = False\<rparr>, w)"
    by (simp add: UniqueLock_ctor_defer_def)
  have start: "m_is_locked g = held w0 \<and> m_is_locked g = (\<not> deferred)
        \<and> trace w0 = trace w @ concat [] @ (if held w0 then [MutexLock] else [])"
    if "?built = Some (Returned g, w0)" for g w0
    using that free ctor dctor by (auto simp: record_event_def split: if_splits)
  have life: "m_is_locked g' = held w'
      \<and> (\<exists>w'' bs. UniqueLock_dtor g' w' = (Returned (), w'')
            \<and> UniqueLock_scope deferred ops w = Some (Returned (), w'')
            \<and> trace w'' = trace w' @ (if m_is_locked g' then [MutexUnlock] else [])
            \<and> \<not> held w''
            \<and> set bs \<subseteq> ?B
            \<and> trace w'' = trace w @ concat bs)"
    if built: "?built = Some (Returned g, w0)"
      and ran: "UniqueLock_ops ops g w0 = Some (Returned g', w')"
    for g w0 g' w'
  proof -
    have none: "set [] \<subseteq> ?B"
      by simp
    from UniqueLock_ops_invariant [OF ran _ none, of "trace w"] start [OF built]
    obtain bs where inv: "m_is_locked g' = held w'" and ok: "set bs \<subseteq> ?B"
      and tr: "trace w' = trace w @ concat bs @ (if held w' then [MutexLock] else [])"
      by blast
    from UniqueLock_dtor_after_ops [OF inv ok tr]
    obtain w'' bs' where gone: "UniqueLock_dtor g' w' = (Returned (), w'')"
      and rest: "\<not> held w''" "trace w'' = trace w' @ (if m_is_locked g' then [MutexUnlock] else [])"
        "set bs' \<subseteq> ?B" "trace w'' = trace w @ concat bs'"
      by blast
    have "UniqueLock_scope deferred ops w = Some (Returned (), w'')"
      unfolding UniqueLock_scope_def using built ran gone by (simp add: then_do_def)
    with inv gone rest show ?thesis
      by blast
  qed
  have scope: "\<not> held w3 \<and> (\<exists>bs. set bs \<subseteq> ?B \<and> trace w3 = trace w @ concat bs)"
    if "UniqueLock_scope deferred ops w = Some (Returned (), w3)"
  proof -
    from that obtain g w0 g' w'
      where built: "?built = Some (Returned g, w0)"
        and ran: "UniqueLock_ops ops g w0 = Some (Returned g', w')"
        and gone: "UniqueLock_dtor g' w' = (Returned (), w3)"
      unfolding UniqueLock_scope_def then_do_Returned by auto
    from life [OF built ran] obtain w'' bs
      where "UniqueLock_dtor g' w' = (Returned (), w'')" and "\<not> held w''"
        and "set bs \<subseteq> ?B" and "trace w'' = trace w @ concat bs"
      by blast
    with gone have "\<not> held w3" and "set bs \<subseteq> ?B" and "trace w3 = trace w @ concat bs"
      by simp_all
    then show ?thesis
      by blast
  qed
  have meant: "\<exists>w4 k. UniqueLock_scope deferred ops w = Some (Returned (), w4)
                    \<and> \<not> held w4
                    \<and> trace w4 = trace w @ concat (replicate k [MutexLock, MutexUnlock])"
    if d: "disciplined (\<not> deferred) ops"
  proof -
    obtain g w0 where built: "?built = Some (Returned g, w0)"
      using ctor dctor by (cases deferred) simp_all
    from start [OF built] have flag: "m_is_locked g = held w0"
      and setting: "m_is_locked g = (\<not> deferred)"
      by blast+
    from start [OF built] have tr0: "trace w0 = trace w @ concat (replicate 0 [MutexLock, MutexUnlock])
                  @ (if held w0 then [MutexLock] else [])"
      by simp
    from d setting have "disciplined (m_is_locked g) ops"
      by simp
    from UniqueLock_ops_disciplined [OF this flag tr0]
    obtain g' w' k where ran: "UniqueLock_ops ops g w0 = Some (Returned g', w')"
      and inv: "m_is_locked g' = held w'"
      and tr: "trace w' = trace w @ concat (replicate k [MutexLock, MutexUnlock])
                 @ (if held w' then [MutexLock] else [])"
      by blast
    from life [OF built ran] obtain w''
      where sc: "UniqueLock_scope deferred ops w = Some (Returned (), w'')"
        and t2: "trace w'' = trace w' @ (if m_is_locked g' then [MutexUnlock] else [])"
        and free2: "\<not> held w''"
      by blast
    have "\<exists>k'. trace w'' = trace w @ concat (replicate k' [MutexLock, MutexUnlock])"
    proof (cases "held w'")
      case True
      with t2 tr inv have "trace w'' =
          trace w @ (concat (replicate k [MutexLock, MutexUnlock]) @ [MutexLock, MutexUnlock])"
        by simp
      then have "trace w'' = trace w @ concat (replicate (Suc k) [MutexLock, MutexUnlock])"
        by (simp only: concat_replicate_snoc)
      then show ?thesis ..
    next
      case False
      with t2 tr inv have "trace w'' = trace w @ concat (replicate k [MutexLock, MutexUnlock])"
        by simp
      then show ?thesis ..
    qed
    with sc free2 show ?thesis
      by blast
  qed
  have "LockGuard_ctor w = Some (Returned (), record_event MutexLock (w\<lparr>held := True\<rparr>))"
    using free by (simp add: LockGuard_ctor_def Mutex_lock_result)
  moreover have "held w1 \<or> \<not> owner_checked w1 \<longrightarrow>
      LockGuard_dtor w1 = (Returned (), record_event MutexUnlock (w1\<lparr>held := False\<rparr>))"
    by (simp add: LockGuard_dtor_def Mutex_unlock_Returned)
  moreover have "UniqueLock_lock g1 w1 = Some (Returned g2, w2) \<longrightarrow> m_is_locked g2 \<and> held w2"
    by (auto simp: UniqueLock_lock_Returned record_event_def)
  moreover have "held w1 \<longrightarrow> UniqueLock_lock g1 w1 = None"
    by (simp add: UniqueLock_lock_def then_do_def Mutex_lock_result)
  moreover have "UniqueLock_unlock g1 w1 = (Returned g2, w2) \<longrightarrow> \<not> m_is_locked g2 \<and> \<not> held w2"
    by (auto simp: UniqueLock_unlock_Returned record_event_def split: if_splits)
  ultimately show ?thesis
    using ctor dctor life scope meant by blast
qed

theorem guards_match_lock_and_unlock_witness:
  "\<not> held idle_world
   \<and> LockGuard_ctor idle_world = Some (Returned (), idle_world\<lparr>held := True, trace := [MutexLock]\<rparr>)
   \<and> LockGuard_dtor (idle_world\<lparr>held := True, trace := [MutexLock]\<rparr>) =
       (Returned (), idle_world\<lparr>trace := [MutexLock, MutexUnlock]\<rparr>)
   \<and> UniqueLock_lock \<lparr>m_is_locked = True\<rparr> (idle_world\<lparr>held := True, trace := [MutexLock]\<rparr>) = None
   \<and> UniqueLock_ops [Unlock] \<lparr>m_is_locked = False\<rparr> idle_world =
       Some (Returned \<lparr>m_is_locked = False\<rparr>, idle_world\<lparr>trace := [MutexUnlock]\<rparr>)
   \<and> (\<exists>w'' bs. UniqueLock_scope True [Unlock] idle_world = Some (Returned (), w'')
          \<and> trace w'' = [MutexUnlock] \<and> \<not> held w''
          \<and> set bs \<subseteq> {[MutexLock, MutexUnlock], [MutexUnlock]}
          \<and> trace w'' = trace idle_world @ concat bs)
   \<and> disciplined (\<not> False) [Unlock, Lock]
   \<and> (\<exists>w4 k. UniqueLock_scope False [Unlock, Lock] idle_world = Some (Returned (), w4)
          \<and> \<not> held w4
          \<and> trace w4 = trace idle_world @ concat (replicate k [MutexLock, MutexUnlock]))"
proof -
  let ?g = "\<lparr>m_is_locked = False\<rparr>"
  let ?w1 = "idle_world\<lparr>trace := [MutexUnlock]\<rparr>"
  have free: "\<not> held idle_world"
    by (simp add: idle_world_def)
  have built: "(if True then Some (UniqueLock_ctor_defer idle_world) else UniqueLock_ctor idle_world)
      = Some (Returned ?g, idle_world)"
    by (simp add: UniqueLock_ctor_defer_def)
  have ran: "UniqueLock_ops [Unlock] ?g idle_world = Some (Returned ?g, ?w1)"
    by (simp add: UniqueLock_unlock_def and_then_def then_do_def Mutex_unlock_def
          pthread_mutex_unlock_def TIGHTDB_ASSERT_def record_event_def idle_world_def)
  have meant: "disciplined (\<not> False) [Unlock, Lock]"
    by simp
  note all = guards_match_lock_and_unlock [OF free, where deferred = True and g = ?g
      and ?w0.0 = idle_world and ops = "[Unlock]" and g' = ?g and w' = ?w1]
  from all built ran
  obtain w'' bs where "UniqueLock_scope True [Unlock] idle_world = Some (Returned (), w'')"
    and "trace w'' = trace ?w1 @ (if m_is_locked ?g then [MutexUnlock] else [])"
    and "\<not> held w''" and "set bs \<subseteq> {[MutexLock, MutexUnlock], [MutexUnlock]}"
    and "trace w'' = trace idle_world @ concat bs"
    by blast
  then have first: "\<exists>w'' bs. UniqueLock_scope True [Unlock] idle_world = Some (Returned (), w'')
          \<and> trace w'' = [MutexUnlock] \<and> \<not> held w''
          \<and> set bs \<subseteq> {[MutexLock, MutexUnlock], [MutexUnlock]}
          \<and> trace w'' = trace idle_world @ concat bs"
    by auto
  from guards_match_lock_and_unlock [OF free, where deferred = False and ops = "[Unlock, Lock]"] meant
  have "\<exists>w4 k. UniqueLock_scope False [Unlock, Lock] idle_world = Some (Returned (), w4)
          \<and> \<not> held w4
          \<and> trace w4 = trace idle_world @ concat (replicate k [MutexLock, MutexUnlock])"
    by blast
  moreover have "LockGuard_ctor idle_world =
      Some (Returned (), idle_world\<lparr>held := True, trace := [MutexLock]\<rparr>)"
    using guards_match_lock_and_unlock [OF free]
    by (simp add: record_event_def idle_world_def)
  moreover have "LockGuard_dtor (idle_world\<lparr>held := True, trace := [MutexLock]\<rparr>) =
       (Returned (), idle_world\<lparr>trace := [MutexLock, MutexUnlock]\<rparr>)"
    using guards_match_lock_and_unlock [OF free,
        where ?w1.0 = "idle_world\<lparr>held := True, trace := [MutexLock]\<rparr>"]
    by (simp add: record_event_def idle_world_def)
  moreover have "UniqueLock_lock \<lparr>m_is_locked = True\<rparr>
       (idle_world\<lparr>held := True, trace := [MutexLock]\<rparr>) = None"
    using guards_match_lock_and_unlock [OF free,
        where ?w1.0 = "idle_world\<lparr>held := True, trace := [MutexLock]\<rparr>"
          and ?g1.0 = "\<lparr>m_is_locked = True\<rparr>"]
    by simp
  ultimately show ?thesis
    using free ran first meant by blast
qed


subsection \<open>RobustMutex\<close>

text \<open>
  C1. \<open>lock\<close> calls \<open>low_level_lock\<close> first. If that answers true, \<open>lock\<close> returns with
  the mutex held and nothing else called, whatever the callback would do. If it answers
  false the callback is called; when the callback returns, \<open>mark_as_consistent\<close> is
  called and \<open>lock\<close> returns with the mutex held; when it throws, \<open>unlock\<close> is called,
  \<open>mark_as_consistent\<close> is not, and the exception goes on to the caller.
\<close>

theorem RobustMutex_lock_paths: 
  "RobustMutex_lock (Returned True) rf w =
      (Returned (), w\<lparr>held := True, trace := trace w @ [LowLevelLock]\<rparr>)
   \<and> RobustMutex_lock (Returned False) (Returned ()) w =
      (Returned (), w\<lparr>held := True, trace := trace w @ [LowLevelLock, RecoverFunc, MarkAsConsistent]\<rparr>)
   \<and> RobustMutex_lock (Returned False) (Thrown e) w =
      (Thrown e, w\<lparr>held := False, trace := trace w @ [LowLevelLock, RecoverFunc, MutexUnlock]\<rparr>)"
  by (simp add: RobustMutex_lock_def low_level_lock_def and_then_def try_recover_def
      recover_func_def mark_as_consistent_def RobustMutex_unlock_def Mutex_unlock_def
      pthread_mutex_unlock_def TIGHTDB_ASSERT_def record_event_def)

lemma RobustMutex_lock_Returned:
  "RobustMutex_lock lll rf w = (Returned u, w') \<Longrightarrow>
     shm w' = shm w \<and> held w' \<and> trace w' = trace w @ lock_calls lll"
  by (auto simp: RobustMutex_lock_def low_level_lock_def and_then_def try_recover_def
        recover_func_def mark_as_consistent_def RobustMutex_unlock_def Mutex_unlock_def
        pthread_mutex_unlock_def TIGHTDB_ASSERT_def record_event_def lock_calls_def
        split: exit.splits if_splits prod.splits)


subsection \<open>CondVar: the emulation\<close>

declare notify_all_loop.simps [simp del]

lemma notify_all_loop_effect:
  "shm (notify_all_loop a w) b = (if b = a then (shm w a)\<lparr>waiters := 0\<rparr> else shm w b)
   \<and> sem (notify_all_loop a w) = sem w + unat (waiters (shm w a))
   \<and> trace (notify_all_loop a w) =
       trace w @ concat (replicate (unat (waiters (shm w a))) [SemPost, WaitersDec])
   \<and> held (notify_all_loop a w) = held w"
proof (induction a w rule: notify_all_loop.induct)
  case (1 a w)
  show ?case
  proof (cases "waiters (shm w a) = 0")
    case True
    then have same: "(shm w a)\<lparr>waiters := 0\<rparr> = shm w a"
      by (cases "shm w a") simp
    have stop: "notify_all_loop a w = w"
      using True by (subst notify_all_loop.simps) simp
    show ?thesis
      unfolding stop same using True by simp
  next
    case False
    then have n: "unat (waiters (shm w a)) = Suc (unat (waiters (shm w a) - 1))"
      by (simp add: unat_minus_one unat_gt_0)
    have unfold: "notify_all_loop a w = notify_all_loop a (waiters_dec a (sem_post w))"
      using False by (subst notify_all_loop.simps) simp
    show ?thesis
      unfolding unfold using "1.IH" [OF False]
      by (simp add: n waiters_dec_def sem_post_def record_event_def at_shared_part_def)
  qed
qed

lemma wait_loop_returned:
  assumes run: "wait_loop env lock a c i w = Some y"
    and lock_ok: "\<forall>j v u v'. lock j v = Some (Returned u, v') \<longrightarrow>
                    shm v' = shm v \<and> held v' \<and> trace v' = trace v @ ev j"
    and ret: "fst y = Returned ()"
  shows "held (snd y) \<and> signal_counter (shm (snd y) a) \<noteq> c \<and>
         (\<exists>k. trace (snd y) = trace w @ concat (map (retry_calls ev c) [i..<i + k])
                 @ SemWait # ev (i + k) @ [SignalRead (signal_counter (shm (snd y) a))])"
  using run lock_ok ret
proof (induction env lock a c i w y rule: wait_loop.raw_induct [rotated 1, consumes 1, case_names iter])
  case (iter loop env lock a c i w y)
  from iter.hyps obtain w1 where sw: "sem_wait (env i) w = Some w1"
    by (auto split: option.splits)
  then have tw1: "trace w1 = trace w @ [SemWait]"
    by (auto simp: sem_wait_def record_event_def Let_def split: prod.splits if_splits)
  obtain x w2 where lk0: "lock i w1 = Some (x, w2)"
    using iter.hyps sw by (cases "lock i w1") auto
  have "x = Returned ()"
  proof (cases x)
    case (Returned u)
    then show ?thesis by simp
  next
    case (Thrown e)
    with iter.hyps sw lk0 have "y = (Thrown e, w2)" by simp
    with iter.prems(2) show ?thesis by simp
  next
    case Terminated
    with iter.hyps sw lk0 have "y = (Terminated, w2)" by simp
    with iter.prems(2) show ?thesis by simp
  qed
  with lk0 have lk: "lock i w1 = Some (Returned (), w2)"
    by simp
  from iter.prems(1) lk have w2: "shm w2 = shm w1" "held w2" "trace w2 = trace w1 @ ev i"
    by blast+
  let ?now = "signal_counter (shm w2 a)"
  let ?w3 = "record_event (SignalRead ?now) w2"
  show ?case
  proof (cases "?now = c")
    case False
    with iter.hyps sw lk have y: "y = (Returned (), ?w3)"
      by (simp add: signal_counter_read_def)
    have "trace (snd y) = trace w @ concat (map (retry_calls ev c) [i..<i + 0])
            @ SemWait # ev (i + 0) @ [SignalRead (signal_counter (shm (snd y) a))]"
      by (simp add: y record_event_def w2 tw1)
    then have "\<exists>k. trace (snd y) = trace w @ concat (map (retry_calls ev c) [i..<i + k])
            @ SemWait # ev (i + k) @ [SignalRead (signal_counter (shm (snd y) a))]" ..
    with False w2 show ?thesis
      by (simp add: y record_event_def)
  next
    case True
    let ?w4 = "record_event MutexUnlock ((sched_yield (sem_post ?w3))\<lparr>held := False\<rparr>)"
    have h: "held (sched_yield (sem_post ?w3))"
      using w2 by (simp add: sched_yield_def sem_post_def record_event_def)
    have rec: "loop env lock a c (Suc i) ?w4 = Some y"
      using iter.hyps sw lk True Mutex_unlock_held [OF h]
      by (simp add: signal_counter_read_def)
    have tw4: "trace ?w4 = trace w @ retry_calls ev c i"
      using True by (simp add: retry_calls_def record_event_def sched_yield_def sem_post_def w2 tw1)
    from iter.IH [OF rec iter.prems(1) iter.prems(2)]
    obtain k where hy: "held (snd y)" and ne: "signal_counter (shm (snd y) a) \<noteq> c"
      and tr: "trace (snd y) = trace ?w4 @ concat (map (retry_calls ev c) [Suc i..<Suc i + k])
                 @ SemWait # ev (Suc i + k) @ [SignalRead (signal_counter (shm (snd y) a))]"
      by blast
    have "[i..<i + Suc k] = i # [Suc i..<Suc i + k]"
      by (simp add: upt_rec)
    then have "trace (snd y) = trace w @ concat (map (retry_calls ev c) [i..<i + Suc k])
                 @ SemWait # ev (i + Suc k) @ [SignalRead (signal_counter (shm (snd y) a))]"
      using tr tw4 by simp
    then have "\<exists>k. trace (snd y) = trace w @ concat (map (retry_calls ev c) [i..<i + k])
            @ SemWait # ev (i + k) @ [SignalRead (signal_counter (shm (snd y) a))]" ..
    with hy ne show ?thesis by simp
  qed
qed

lemma wait_loop_needs_signal:
  assumes run: "wait_loop env lock a c i w = Some y"
    and lock_ok: "\<forall>j v u v'. lock j v = Some (Returned u, v') \<longrightarrow> shm v' = shm v"
    and quiet: "\<forall>j m n. signal_counter (fst (env j (m, n)) a) = signal_counter (m a)"
    and same: "signal_counter (shm w a) = c"
  shows "fst y \<noteq> Returned ()"
  using run lock_ok quiet same
proof (induction env lock a c i w y rule: wait_loop.raw_induct [rotated 1, consumes 1, case_names iter])
  case (iter loop env lock a c i w y)
  show ?case
  proof
    assume ret: "fst y = Returned ()"
    from iter.hyps obtain w1 where sw: "sem_wait (env i) w = Some w1"
      by (auto split: option.splits)
    then have "shm w1 = fst (env i (shm w, sem w))"
      by (auto simp: sem_wait_def record_event_def Let_def split: prod.splits if_splits)
    with iter.prems(2,3) have c1: "signal_counter (shm w1 a) = c"
      by simp
    obtain x0 w2 where lk0: "lock i w1 = Some (x0, w2)"
      using iter.hyps sw by (cases "lock i w1") auto
    have "x0 = Returned ()"
    proof (cases x0)
      case (Returned u)
      then show ?thesis by simp
    next
      case (Thrown e)
      with iter.hyps sw lk0 have "y = (Thrown e, w2)" by simp
      with ret show ?thesis by simp
    next
      case Terminated
      with iter.hyps sw lk0 have "y = (Terminated, w2)" by simp
      with ret show ?thesis by simp
    qed
    with lk0 have lk: "lock i w1 = Some (Returned (), w2)"
      by simp
    from iter.prems(1) lk have "shm w2 = shm w1"
      by blast
    with c1 have c2: "signal_counter (shm w2 a) = c"
      by simp
    let ?w3 = "record_event (SignalRead c) w2"
    obtain x w4 where ul: "Mutex_unlock (sched_yield (sem_post ?w3)) = (x, w4)"
      by (cases "Mutex_unlock (sched_yield (sem_post ?w3))")
    have shm4: "shm w4 = shm w2"
      using ul by (auto simp: Mutex_unlock_def pthread_mutex_unlock_def TIGHTDB_ASSERT_def
          sched_yield_def sem_post_def record_event_def split: if_splits)
    from iter.hyps sw lk c2 ul ret have rec: "loop env lock a c (Suc i) w4 = Some y"
      by (cases x) (auto simp: signal_counter_read_def)
    from iter.IH [OF rec iter.prems(1) iter.prems(2)] shm4 c2 ret show False
      by simp
  qed
qed

lemma wait_emulated_returned:
  assumes run: "wait_emulated env lock a w = Some (Returned (), w')"
    and lock_ok: "\<forall>j v u v'. lock j v = Some (Returned u, v') \<longrightarrow>
                    shm v' = shm v \<and> held v' \<and> trace v' = trace v @ ev j"
    and owner: "held w"
  shows "held w' \<and> signal_counter (shm w' a) \<noteq> signal_counter (shm w a) \<and>
         (\<exists>k. trace w' = trace w @ [WaitersInc, SignalRead (signal_counter (shm w a)), MutexUnlock]
                 @ concat (map (retry_calls ev (signal_counter (shm w a))) [0..<k])
                 @ SemWait # ev k @ [SignalRead (signal_counter (shm w' a))])"
proof -
  let ?c = "signal_counter (shm w a)"
  let ?w2 = "record_event (SignalRead ?c) (waiters_inc a w)"
  let ?w3 = "record_event MutexUnlock (?w2\<lparr>held := False\<rparr>)"
  have c: "signal_counter (shm (waiters_inc a w) a) = ?c"
    by (simp add: waiters_inc_def at_shared_part_def record_event_def)
  have "held ?w2"
    using owner by (simp add: waiters_inc_def at_shared_part_def record_event_def)
  then have "Mutex_unlock ?w2 = (Returned (), ?w3)"
    by (rule Mutex_unlock_held)
  with run c have loop: "wait_loop env lock a ?c 0 ?w3 = Some (Returned (), w')"
    by (simp add: wait_emulated_def signal_counter_read_def Let_def)
  have t3: "trace ?w3 = trace w @ [WaitersInc, SignalRead ?c, MutexUnlock]"
    by (simp add: waiters_inc_def at_shared_part_def record_event_def)
  from wait_loop_returned [OF loop lock_ok] t3 show ?thesis
    by simp
qed

lemma wait_emulated_needs_signal:
  assumes lock_ok: "\<forall>j v u v'. lock j v = Some (Returned u, v') \<longrightarrow> shm v' = shm v"
    and quiet: "\<forall>j m n. signal_counter (fst (env j (m, n)) a) = signal_counter (m a)"
  shows "wait_emulated env lock a w \<noteq> Some (Returned (), w')"
proof
  assume run: "wait_emulated env lock a w = Some (Returned (), w')"
  let ?c = "signal_counter (shm w a)"
  let ?w2 = "record_event (SignalRead ?c) (waiters_inc a w)"
  have c: "signal_counter (shm (waiters_inc a w) a) = ?c"
    by (simp add: waiters_inc_def at_shared_part_def record_event_def)
  obtain x w3 where ul: "Mutex_unlock ?w2 = (x, w3)"
    by (cases "Mutex_unlock ?w2")
  then have "shm w3 = shm ?w2"
    by (auto simp: Mutex_unlock_def pthread_mutex_unlock_def TIGHTDB_ASSERT_def
          record_event_def split: if_splits)
  then have c3: "signal_counter (shm w3 a) = ?c"
    by (simp add: waiters_inc_def at_shared_part_def record_event_def)
  from run c ul have loop: "wait_loop env lock a ?c 0 w3 = Some (Returned (), w')"
    by (cases x) (simp_all add: wait_emulated_def signal_counter_read_def Let_def)
  from wait_loop_needs_signal [OF loop lock_ok quiet c3] show False
    by simp
qed

lemma Mutex_lock_ok:
  "\<forall>j v u v'. (\<lambda>i. Mutex_lock) j v = Some (Returned u, v') \<longrightarrow>
      shm v' = shm v \<and> held v' \<and> trace v' = trace v @ (\<lambda>_. [MutexLock]) j"
  by (auto simp: Mutex_lock_Returned record_event_def)

lemma RobustMutex_lock_ok:
  "\<forall>j v u v'. (\<lambda>i v. Some (RobustMutex_lock (lll i) (rf i) v)) j v = Some (Returned u, v') \<longrightarrow>
      shm v' = shm v \<and> held v' \<and> trace v' = trace v @ (\<lambda>i. lock_calls (lll i)) j"
  using RobustMutex_lock_Returned by simp

text \<open>The state in which the emulated \<open>wait\<close> enters its loop.\<close>

lemma wait_emulated_start:
  assumes owner: "held w"
  shows "wait_emulated env lock a w =
     wait_loop env lock a (signal_counter (shm w a)) 0
       (w\<lparr>shm := (shm w)(a := (shm w a)\<lparr>waiters := waiters (shm w a) + 1\<rparr>),
          held := False,
          trace := trace w @ [WaitersInc, SignalRead (signal_counter (shm w a)), MutexUnlock]\<rparr>)"
proof -
  let ?c = "signal_counter (shm w a)"
  let ?w2 = "record_event (SignalRead ?c) (waiters_inc a w)"
  have c: "signal_counter (shm (waiters_inc a w) a) = ?c"
    by (simp add: waiters_inc_def at_shared_part_def record_event_def)
  have "held ?w2"
    using owner by (simp add: waiters_inc_def at_shared_part_def record_event_def)
  then have "Mutex_unlock ?w2 = (Returned (), record_event MutexUnlock (?w2\<lparr>held := False\<rparr>))"
    by (rule Mutex_unlock_held)
  moreover have "record_event MutexUnlock (?w2\<lparr>held := False\<rparr>) =
      w\<lparr>shm := (shm w)(a := (shm w a)\<lparr>waiters := waiters (shm w a) + 1\<rparr>),
        held := False,
        trace := trace w @ [WaitersInc, SignalRead ?c, MutexUnlock]\<rparr>"
    by (simp add: waiters_inc_def at_shared_part_def record_event_def)
  ultimately show ?thesis
    using c by (simp add: wait_emulated_def signal_counter_read_def Let_def)
qed

text \<open>One round of the loop: blocked, returning, or trying again.\<close>

lemma wait_loop_round:
  "(sem_wait (env i) v = None \<longrightarrow> wait_loop env lock a c i v = None)
   \<and> (sem_wait (env i) v = Some v1 \<and> lock i v1 = None \<longrightarrow> wait_loop env lock a c i v = None)
   \<and> (sem_wait (env i) v = Some v1 \<and> lock i v1 = Some (Returned (), v2)
        \<and> signal_counter (shm v2 a) \<noteq> c \<longrightarrow>
        wait_loop env lock a c i v =
          Some (Returned (), v2\<lparr>trace := trace v2 @ [SignalRead (signal_counter (shm v2 a))]\<rparr>))
   \<and> (sem_wait (env i) v = Some v1 \<and> lock i v1 = Some (Returned (), v2) \<and> held v2
        \<and> signal_counter (shm v2 a) = c \<longrightarrow>
        wait_loop env lock a c i v =
          wait_loop env lock a c (Suc i)
            (v2\<lparr>sem := sem v2 + 1, held := False,
                trace := trace v2 @ [SignalRead c, SemPost, SchedYield, MutexUnlock]\<rparr>))"
proof (intro conjI impI)
  assume "sem_wait (env i) v = None"
  then show "wait_loop env lock a c i v = None"
    by (subst wait_loop.simps) simp
next
  assume "sem_wait (env i) v = Some v1 \<and> lock i v1 = None"
  then show "wait_loop env lock a c i v = None"
    by (subst wait_loop.simps) simp
next
  assume "sem_wait (env i) v = Some v1 \<and> lock i v1 = Some (Returned (), v2)
        \<and> signal_counter (shm v2 a) \<noteq> c"
  then show "wait_loop env lock a c i v =
          Some (Returned (), v2\<lparr>trace := trace v2 @ [SignalRead (signal_counter (shm v2 a))]\<rparr>)"
    by (subst wait_loop.simps) (simp add: signal_counter_read_def record_event_def)
next
  assume a: "sem_wait (env i) v = Some v1 \<and> lock i v1 = Some (Returned (), v2) \<and> held v2
        \<and> signal_counter (shm v2 a) = c"
  let ?w3 = "record_event (SignalRead c) v2"
  have "held (sched_yield (sem_post ?w3))"
    using a by (simp add: sched_yield_def sem_post_def record_event_def)
  then have "Mutex_unlock (sched_yield (sem_post ?w3)) =
      (Returned (), record_event MutexUnlock ((sched_yield (sem_post ?w3))\<lparr>held := False\<rparr>))"
    by (rule Mutex_unlock_held)
  moreover have "record_event MutexUnlock ((sched_yield (sem_post ?w3))\<lparr>held := False\<rparr>) =
      v2\<lparr>sem := sem v2 + 1, held := False,
         trace := trace v2 @ [SignalRead c, SemPost, SchedYield, MutexUnlock]\<rparr>"
    by (simp add: sched_yield_def sem_post_def record_event_def)
  ultimately show "wait_loop env lock a c i v =
          wait_loop env lock a c (Suc i)
            (v2\<lparr>sem := sem v2 + 1, held := False,
                trace := trace v2 @ [SignalRead c, SemPost, SchedYield, MutexUnlock]\<rparr>)"
    using a by (subst wait_loop.simps) (simp add: signal_counter_read_def)
qed

text \<open>
  C2. In a build with emulation, on a handle with a semaphore and a shared part, called
  by the owner of the mutex. Every \<open>wait\<close> of either overload, whether it ever returns or
  not, is its loop entered in this state (for the overload on a \<open>RobustMutex\<close>: with a
  null \<open>tp\<close>, or in a build that does not check the assertion on it): \<open>waiters\<close> in the shared part one higher, the
  signal counter read (the snapshot), the mutex released, in that order. Every round of
  the loop first waits on the semaphore, as changed by the other threads; with no permit
  the call blocks there. With a permit and the mutex taken again, a counter different
  from the snapshot ends the call, which returns holding the mutex; a counter equal to
  it posts the permit back, yields, releases the mutex and starts the next round. So a
  \<open>wait\<close> that returns has made the calls of some number of such rounds and then read a
  counter different from its snapshot. (The overload on a \<open>RobustMutex\<close> can also leave
  by an exception of \<open>lock\<close>; that is not a return.)
\<close>

theorem wait_emulated_returns_only_after_signal:
  assumes emu: "emulation w" and sem: "m_sem c = Some s" and part: "m_shared_part c = Some a"
    and owner: "held w"
  shows
   "CondVar_wait env r c w =
      wait_loop env (\<lambda>i. Mutex_lock) a (signal_counter (shm w a)) 0
        (w\<lparr>shm := (shm w)(a := (shm w a)\<lparr>waiters := waiters (shm w a) + 1\<rparr>),
           held := False,
           trace := trace w @ [WaitersInc, SignalRead (signal_counter (shm w a)), MutexUnlock]\<rparr>)
    \<and> (tp = None \<or> \<not> asserts w \<longrightarrow>
       CondVar_wait_robust env lll rf hwe r tp c w =
         wait_loop env (\<lambda>i v. Some (RobustMutex_lock (lll i) (rf i) v)) a (signal_counter (shm w a)) 0
           (w\<lparr>shm := (shm w)(a := (shm w a)\<lparr>waiters := waiters (shm w a) + 1\<rparr>),
              held := False,
              trace := trace w @ [WaitersInc, SignalRead (signal_counter (shm w a)), MutexUnlock]\<rparr>))
    \<and> (sem_wait (env i) v = None \<longrightarrow> wait_loop env lock a snap i v = None)
    \<and> (sem_wait (env i) v = Some v1 \<and> lock i v1 = Some (Returned (), v2)
         \<and> signal_counter (shm v2 a) \<noteq> snap \<longrightarrow>
         wait_loop env lock a snap i v =
           Some (Returned (), v2\<lparr>trace := trace v2 @ [SignalRead (signal_counter (shm v2 a))]\<rparr>))
    \<and> (sem_wait (env i) v = Some v1 \<and> lock i v1 = Some (Returned (), v2) \<and> held v2
         \<and> signal_counter (shm v2 a) = snap \<longrightarrow>
         wait_loop env lock a snap i v =
           wait_loop env lock a snap (Suc i)
             (v2\<lparr>sem := sem v2 + 1, held := False,
                 trace := trace v2 @ [SignalRead snap, SemPost, SchedYield, MutexUnlock]\<rparr>))
    \<and> (\<not> held v1 \<longrightarrow>
         Mutex_lock v1 = Some (Returned (), v1\<lparr>held := True, trace := trace v1 @ [MutexLock]\<rparr>))
    \<and> (CondVar_wait env r c w = Some (Returned (), w') \<longrightarrow>
       held w' \<and> signal_counter (shm w' a) \<noteq> signal_counter (shm w a)
       \<and> (\<exists>k. trace w' = trace w @ [WaitersInc, SignalRead (signal_counter (shm w a)), MutexUnlock]
              @ concat (replicate k [SemWait, MutexLock, SignalRead (signal_counter (shm w a)),
                                     SemPost, SchedYield, MutexUnlock])
              @ [SemWait, MutexLock, SignalRead (signal_counter (shm w' a))]))
    \<and> (CondVar_wait_robust env lll rf hwe r tp c w = Some (Returned (), w') \<longrightarrow>
       held w' \<and> signal_counter (shm w' a) \<noteq> signal_counter (shm w a)
       \<and> (\<exists>k. trace w' = trace w @ [WaitersInc, SignalRead (signal_counter (shm w a)), MutexUnlock]
              @ concat (map (\<lambda>j. SemWait # lock_calls (lll j)
                                   @ [SignalRead (signal_counter (shm w a)), SemPost, SchedYield, MutexUnlock])
                            [0..<k])
              @ SemWait # lock_calls (lll k) @ [SignalRead (signal_counter (shm w' a))]))"
proof -
  have plain: "CondVar_wait env r c w = wait_emulated env (\<lambda>i. Mutex_lock) a w"
    using emu sem part by (simp add: CondVar_wait_def)
  have robust: "tp = None \<or> \<not> asserts w \<longrightarrow>
      CondVar_wait_robust env lll rf hwe r tp c w =
        wait_emulated env (\<lambda>i v. Some (RobustMutex_lock (lll i) (rf i) v)) a w"
    using emu sem part by (auto simp: CondVar_wait_robust_def TIGHTDB_ASSERT_def)
  have relock: "\<not> held v1 \<longrightarrow>
      Mutex_lock v1 = Some (Returned (), v1\<lparr>held := True, trace := trace v1 @ [MutexLock]\<rparr>)"
    by (simp add: Mutex_lock_result record_event_def)
  have ret_plain: "held w' \<and> signal_counter (shm w' a) \<noteq> signal_counter (shm w a)
       \<and> (\<exists>k. trace w' = trace w @ [WaitersInc, SignalRead (signal_counter (shm w a)), MutexUnlock]
              @ concat (replicate k [SemWait, MutexLock, SignalRead (signal_counter (shm w a)),
                                     SemPost, SchedYield, MutexUnlock])
              @ [SemWait, MutexLock, SignalRead (signal_counter (shm w' a))])"
    if "CondVar_wait env r c w = Some (Returned (), w')"
  proof -
    from that plain have run: "wait_emulated env (\<lambda>i. Mutex_lock) a w = Some (Returned (), w')"
      by simp
    from wait_emulated_returned [OF run Mutex_lock_ok owner] show ?thesis
      by (simp add: retry_calls_def [abs_def] map_replicate_const)
  qed
  have ret_robust: "held w' \<and> signal_counter (shm w' a) \<noteq> signal_counter (shm w a)
       \<and> (\<exists>k. trace w' = trace w @ [WaitersInc, SignalRead (signal_counter (shm w a)), MutexUnlock]
              @ concat (map (\<lambda>j. SemWait # lock_calls (lll j)
                                   @ [SignalRead (signal_counter (shm w a)), SemPost, SchedYield, MutexUnlock])
                            [0..<k])
              @ SemWait # lock_calls (lll k) @ [SignalRead (signal_counter (shm w' a))])"
    if "CondVar_wait_robust env lll rf hwe r tp c w = Some (Returned (), w')"
  proof -
    from that have run: "wait_emulated env (\<lambda>i v. Some (RobustMutex_lock (lll i) (rf i) v)) a w
        = Some (Returned (), w')"
      using emu sem part
      by (cases tp) (auto simp: CondVar_wait_robust_def TIGHTDB_ASSERT_def split: if_splits)
    from wait_emulated_returned [OF run RobustMutex_lock_ok owner] show ?thesis
      by (simp add: retry_calls_def [abs_def])
  qed
  from plain robust wait_emulated_start [OF owner] relock ret_plain ret_robust
    wait_loop_round [of env i v lock a snap v1 v2]
  show ?thesis
    by simp
qed

theorem wait_emulated_returns_only_after_signal_witness:
  "emulation waiting_world \<and> m_sem shared_condvar = Some 0 \<and> m_shared_part shared_condvar = Some 0
   \<and> held waiting_world
   \<and> (\<exists>w'. CondVar_wait late_notifier 0 shared_condvar waiting_world = Some (Returned (), w')
         \<and> held w' \<and> signal_counter (shm w' 0) \<noteq> signal_counter (shm waiting_world 0)
         \<and> trace w' = [WaitersInc, SignalRead 0, MutexUnlock,
                        SemWait, MutexLock, SignalRead 0, SemPost, SchedYield, MutexUnlock,
                        SemWait, MutexLock, SignalRead 1])
   \<and> (\<exists>w'. CondVar_wait_robust late_notifier (\<lambda>j. Returned (0 < j)) (\<lambda>j. Returned ())
               (\<lambda>r. Terminated) 0 None shared_condvar waiting_world = Some (Returned (), w')
         \<and> held w' \<and> signal_counter (shm w' 0) \<noteq> signal_counter (shm waiting_world 0)
         \<and> trace w' = [WaitersInc, SignalRead 0, MutexUnlock,
                        SemWait, LowLevelLock, RecoverFunc, MarkAsConsistent, SignalRead 0,
                        SemPost, SchedYield, MutexUnlock,
                        SemWait, LowLevelLock, SignalRead 1])
   \<and> CondVar_wait (\<lambda>j x. x) 0 shared_condvar waiting_world = None"
proof -
  have emu: "emulation waiting_world" and sem: "m_sem shared_condvar = Some 0"
    and part: "m_shared_part shared_condvar = Some 0" and owner: "held waiting_world"
    by (simp_all add: waiting_world_def idle_world_def shared_condvar_def)
  obtain w' where run: "CondVar_wait late_notifier 0 shared_condvar waiting_world = Some (Returned (), w')"
    and tr: "trace w' = [WaitersInc, SignalRead 0, MutexUnlock,
                        SemWait, MutexLock, SignalRead 0, SemPost, SchedYield, MutexUnlock,
                        SemWait, MutexLock, SignalRead 1]"
    by (simp add: CondVar_wait_def wait_emulated_def wait_loop.simps sem_wait_def
          late_notifier_def signal_counter_read_def waiters_inc_def at_shared_part_def
          record_event_def Mutex_lock_def Mutex_unlock_def pthread_mutex_lock_def
          pthread_mutex_unlock_def TIGHTDB_ASSERT_def sem_post_def sched_yield_def
          waiting_world_def idle_world_def shared_condvar_def Let_def)
  from wait_emulated_returns_only_after_signal [OF emu sem part owner,
      where env = late_notifier and r = 0 and w' = w'] run
  have p: "held w'" "signal_counter (shm w' 0) \<noteq> signal_counter (shm waiting_world 0)"
    by blast+
  obtain w2 where run2: "CondVar_wait_robust late_notifier (\<lambda>j. Returned (0 < j)) (\<lambda>j. Returned ())
               (\<lambda>r. Terminated) 0 None shared_condvar waiting_world = Some (Returned (), w2)"
    and tr2: "trace w2 = [WaitersInc, SignalRead 0, MutexUnlock,
                        SemWait, LowLevelLock, RecoverFunc, MarkAsConsistent, SignalRead 0,
                        SemPost, SchedYield, MutexUnlock,
                        SemWait, LowLevelLock, SignalRead 1]"
    by (simp add: CondVar_wait_robust_def wait_emulated_def wait_loop.simps sem_wait_def
          late_notifier_def signal_counter_read_def waiters_inc_def at_shared_part_def
          record_event_def RobustMutex_lock_def low_level_lock_def and_then_def try_recover_def
          recover_func_def mark_as_consistent_def Mutex_unlock_def
          pthread_mutex_unlock_def TIGHTDB_ASSERT_def sem_post_def sched_yield_def
          waiting_world_def idle_world_def shared_condvar_def Let_def)
  from wait_emulated_returns_only_after_signal [OF emu sem part owner,
      where env = late_notifier and lll = "\<lambda>j. Returned (0 < j)" and rf = "\<lambda>j. Returned ()"
        and hwe = "\<lambda>r. Terminated" and r = 0 and tp = None and w' = w2] run2
  have q: "held w2" "signal_counter (shm w2 0) \<noteq> signal_counter (shm waiting_world 0)"
    by blast+
  have blocked: "CondVar_wait (\<lambda>j x. x) 0 shared_condvar waiting_world = None"
  proof -
    let ?start = "waiting_world\<lparr>shm := (shm waiting_world)
          (0 := (shm waiting_world 0)\<lparr>waiters := waiters (shm waiting_world 0) + 1\<rparr>),
        held := False,
        trace := trace waiting_world
          @ [WaitersInc, SignalRead (signal_counter (shm waiting_world 0)), MutexUnlock]\<rparr>"
    have "sem_wait ((\<lambda>j x. x) (0::nat)) ?start = None"
      by (simp add: sem_wait_def waiting_world_def idle_world_def)
    with wait_emulated_returns_only_after_signal [OF emu sem part owner,
        where env = "\<lambda>j x. x" and r = 0 and i = 0 and v = ?start and lock = "\<lambda>i. Mutex_lock"
          and snap = "signal_counter (shm waiting_world 0)"]
    show ?thesis
      by simp
  qed
  from emu sem part owner run tr p run2 tr2 q blocked show ?thesis
    by blast
qed

text \<open>
  C3. In a build with emulation, on a handle with a semaphore and a shared part,
  \<open>notify_all\<close> returns; it has incremented the signal counter once, posted one permit
  for each waiter counted at the call (\<open>waiters\<close> read as an unsigned number), and left
  \<open>waiters\<close> at zero. No other shared part is touched.
\<close>

theorem notify_all_emulated:
  assumes "emulation w" and "m_sem c = Some s" and "m_shared_part c = Some a"
  shows "\<exists>w'. CondVar_notify_all r c w = (Returned (), w')
     \<and> signal_counter (shm w' a) = signal_counter (shm w a) + 1
     \<and> waiters (shm w' a) = 0
     \<and> sem w' = sem w + unat (waiters (shm w a))
     \<and> trace w' = trace w @ SignalInc # concat (replicate (unat (waiters (shm w a))) [SemPost, WaitersDec])
     \<and> (\<forall>b. b \<noteq> a \<longrightarrow> shm w' b = shm w b)"
  using assms
  by (simp add: CondVar_notify_all_def notify_all_loop_effect signal_counter_inc_def
        record_event_def at_shared_part_def)

theorem notify_all_emulated_witness:
  "emulation two_waiters_world \<and> m_sem shared_condvar = Some 0
   \<and> m_shared_part shared_condvar = Some 0
   \<and> (\<exists>w'. CondVar_notify_all 0 shared_condvar two_waiters_world = (Returned (), w')
         \<and> signal_counter (shm w' 0) = 1 \<and> waiters (shm w' 0) = 0 \<and> sem w' = 2
         \<and> trace w' = [SignalInc, SemPost, WaitersDec, SemPost, WaitersDec])"
proof -
  have emu: "emulation two_waiters_world" and sem: "m_sem shared_condvar = Some 0"
    and part: "m_shared_part shared_condvar = Some 0"
    by (simp_all add: two_waiters_world_def waiting_world_def idle_world_def shared_condvar_def)
  have before: "signal_counter (shm two_waiters_world 0) = 0" "waiters (shm two_waiters_world 0) = 2"
    "sem two_waiters_world = 0" "trace two_waiters_world = []"
    by (simp_all add: two_waiters_world_def waiting_world_def idle_world_def)
  have two: "unat (2 :: 32 word) = Suc (Suc 0)"
    by simp
  from notify_all_emulated [OF emu sem part, of 0]
  obtain w' where "CondVar_notify_all 0 shared_condvar two_waiters_world = (Returned (), w')"
    and "signal_counter (shm w' 0) = signal_counter (shm two_waiters_world 0) + 1"
    and "waiters (shm w' 0) = 0"
    and "sem w' = sem two_waiters_world + unat (waiters (shm two_waiters_world 0))"
    and "trace w' = trace two_waiters_world
           @ SignalInc # concat (replicate (unat (waiters (shm two_waiters_world 0))) [SemPost, WaitersDec])"
    by blast
  then have "\<exists>w'. CondVar_notify_all 0 shared_condvar two_waiters_world = (Returned (), w')
         \<and> signal_counter (shm w' 0) = 1 \<and> waiters (shm w' 0) = 0 \<and> sem w' = 2
         \<and> trace w' = [SignalInc, SemPost, WaitersDec, SemPost, WaitersDec]"
    unfolding before two by simp
  with emu sem part show ?thesis
    by blast
qed

text \<open>
  C4. In a build with emulation, on a handle with a semaphore and a shared part,
  \<open>notify\<close> returns and has incremented the signal counter. With a waiter counted it
  has posted one permit and decremented \<open>waiters\<close> by one. With none it has posted no
  permit and left \<open>waiters\<close> as it was; a \<open>wait\<close> of either overload called afterwards
  takes its snapshot after the increment, and does not return as long as no other thread
  changes the signal counter again.
\<close>

theorem notify_emulated:
  assumes emu: "emulation w" and sem: "m_sem c = Some s" and part: "m_shared_part c = Some a"
  shows "\<exists>w1. CondVar_notify r c w = (Returned (), w1)
     \<and> signal_counter (shm w1 a) = signal_counter (shm w a) + 1
     \<and> (waiters (shm w a) \<noteq> 0 \<longrightarrow>
          sem w1 = sem w + 1 \<and> waiters (shm w1 a) = waiters (shm w a) - 1
          \<and> trace w1 = trace w @ [SignalInc, SemPost, WaitersDec])
     \<and> (waiters (shm w a) = 0 \<longrightarrow>
          sem w1 = sem w \<and> waiters (shm w1 a) = waiters (shm w a)
          \<and> trace w1 = trace w @ [SignalInc]
          \<and> ((\<forall>j m n. signal_counter (fst (env j (m, n)) a) = signal_counter (m a)) \<longrightarrow>
                CondVar_wait env r' c w1 \<noteq> Some (Returned (), w2)
                \<and> CondVar_wait_robust env lll rf hwe r' tp c w1 \<noteq> Some (Returned (), w2)))"
proof -
  define w1 where "w1 = snd (CondVar_notify r c w)"
  have n: "CondVar_notify r c w = (Returned (), w1)"
    using emu sem part by (simp add: w1_def CondVar_notify_def Let_def)
  have e1: "emulation w1"
    using emu sem part
    by (simp add: w1_def CondVar_notify_def signal_counter_inc_def waiters_dec_def sem_post_def
          record_event_def at_shared_part_def Let_def)
  have counter: "signal_counter (shm w1 a) = signal_counter (shm w a) + 1"
    using emu sem part
    by (simp add: w1_def CondVar_notify_def signal_counter_inc_def waiters_dec_def sem_post_def
          record_event_def at_shared_part_def Let_def)
  have some: "sem w1 = sem w + 1 \<and> waiters (shm w1 a) = waiters (shm w a) - 1
          \<and> trace w1 = trace w @ [SignalInc, SemPost, WaitersDec]" if "waiters (shm w a) \<noteq> 0"
    using emu sem part that
    by (simp add: w1_def CondVar_notify_def signal_counter_inc_def waiters_dec_def sem_post_def
          record_event_def at_shared_part_def Let_def)
  have none: "sem w1 = sem w \<and> waiters (shm w1 a) = waiters (shm w a)
          \<and> trace w1 = trace w @ [SignalInc]" if "waiters (shm w a) = 0"
    using emu sem part that
    by (simp add: w1_def CondVar_notify_def signal_counter_inc_def waiters_dec_def sem_post_def
          record_event_def at_shared_part_def Let_def)
  have later: "CondVar_wait env r' c w1 \<noteq> Some (Returned (), w2)
        \<and> CondVar_wait_robust env lll rf hwe r' tp c w1 \<noteq> Some (Returned (), w2)"
    if quiet: "\<forall>j m n. signal_counter (fst (env j (m, n)) a) = signal_counter (m a)"
  proof -
    have l1: "\<forall>j v u v'. (\<lambda>i::nat. Mutex_lock) j v = Some (Returned u, v') \<longrightarrow> shm v' = shm v"
      by (simp add: Mutex_lock_Returned record_event_def)
    have l2: "\<forall>j v u v'. (\<lambda>i v. Some (RobustMutex_lock (lll i) (rf i) v)) j v = Some (Returned u, v')
        \<longrightarrow> shm v' = shm v"
      using RobustMutex_lock_Returned by simp
    have "CondVar_wait env r' c w1 = wait_emulated env (\<lambda>i. Mutex_lock) a w1"
      using e1 sem part by (simp add: CondVar_wait_def)
    then have plain: "CondVar_wait env r' c w1 \<noteq> Some (Returned (), w2)"
      using wait_emulated_needs_signal [OF l1 quiet, of w1 w2] by simp
    have "CondVar_wait_robust env lll rf hwe r' tp c w1 \<noteq> Some (Returned (), w2)"
    proof (cases "asserts w1 \<and> tp \<noteq> None")
      case True
      then show ?thesis
        using e1 sem part by (cases tp) (auto simp: CondVar_wait_robust_def TIGHTDB_ASSERT_def)
    next
      case False
      then have "CondVar_wait_robust env lll rf hwe r' tp c w1 =
          wait_emulated env (\<lambda>i v. Some (RobustMutex_lock (lll i) (rf i) v)) a w1"
        using e1 sem part by (cases tp) (auto simp: CondVar_wait_robust_def TIGHTDB_ASSERT_def)
      then show ?thesis
        using wait_emulated_needs_signal [OF l2 quiet, of w1 w2] by simp
    qed
    with plain show ?thesis by simp
  qed
  from n counter some none later show ?thesis
    by blast
qed

theorem notify_emulated_witness:
  "emulation waiting_world \<and> m_sem shared_condvar = Some 0
   \<and> m_shared_part shared_condvar = Some 0
   \<and> waiters (shm waiting_world 0) = 0
   \<and> (\<forall>j m n. signal_counter (fst ((\<lambda>(_::nat) x. x) j (m, n)) (0::nat)) = signal_counter (m 0))
   \<and> (\<exists>w1. CondVar_notify 0 shared_condvar waiting_world = (Returned (), w1)
         \<and> signal_counter (shm w1 0) = 1 \<and> sem w1 = 0 \<and> waiters (shm w1 0) = 0
         \<and> trace w1 = [SignalInc]
         \<and> (\<forall>w2. CondVar_wait (\<lambda>_ x. x) 0 shared_condvar w1 \<noteq> Some (Returned (), w2)))"
proof -
  have emu: "emulation waiting_world" and sem: "m_sem shared_condvar = Some 0"
    and part: "m_shared_part shared_condvar = Some 0"
    by (simp_all add: waiting_world_def idle_world_def shared_condvar_def)
  have before: "signal_counter (shm waiting_world 0) = 0" "waiters (shm waiting_world 0) = 0"
    "sem waiting_world = 0" "trace waiting_world = []"
    by (simp_all add: waiting_world_def idle_world_def)
  have quiet: "\<forall>j m n. signal_counter (fst ((\<lambda>(_::nat) x. x) j (m, n)) (0::nat)) = signal_counter (m 0)"
    by simp
  define w1 where "w1 = snd (CondVar_notify 0 shared_condvar waiting_world)"
  have n: "CondVar_notify 0 shared_condvar waiting_world = (Returned (), w1)"
    by (simp add: w1_def CondVar_notify_def emu sem part Let_def)
  have "signal_counter (shm w1 0) = 1 \<and> sem w1 = 0 \<and> waiters (shm w1 0) = 0
         \<and> trace w1 = [SignalInc]
         \<and> CondVar_wait (\<lambda>_ x. x) 0 shared_condvar w1 \<noteq> Some (Returned (), w2)" for w2
    using notify_emulated [OF emu sem part, of 0 "\<lambda>_ x. x" 0 w2] n quiet before
    by auto
  with n have "\<exists>w1. CondVar_notify 0 shared_condvar waiting_world = (Returned (), w1)
         \<and> signal_counter (shm w1 0) = 1 \<and> sem w1 = 0 \<and> waiters (shm w1 0) = 0
         \<and> trace w1 = [SignalInc]
         \<and> (\<forall>w2. CondVar_wait (\<lambda>_ x. x) 0 shared_condvar w1 \<noteq> Some (Returned (), w2))"
    by blast
  with emu sem part before quiet show ?thesis
    by blast
qed


subsection \<open>CondVar: close and the timed wait\<close>

text \<open>
  C8. \<open>close\<close> leaves the shared memory, with every field of every \<open>SharedPart\<close> in
  it, as it was, and the semaphore's value and the mutex too. What it calls is, for a
  handle with a semaphore, \<open>sem_close\<close>; for a handle with a private condition variable,
  \<open>pthread_cond_destroy\<close> and \<open>delete\<close> on that one (the latter when the former
  succeeded); nothing otherwise. No private condition variable but the handle's own
  changes.
\<close>

theorem close_leaves_shared_part:
  "shm (snd (CondVar_close r c w)) = shm w
   \<and> sem (snd (CondVar_close r c w)) = sem w
   \<and> held (snd (CondVar_close r c w)) = held w
   \<and> (m_cond c \<noteq> Some q \<longrightarrow> conds (snd (CondVar_close r c w)) q = conds w q)
   \<and> trace (snd (CondVar_close r c w)) = trace w @
       (case m_sem c of
          Some s \<Rightarrow> [SemClose]
        | None \<Rightarrow>
           (case m_cond c of
              Some p \<Rightarrow> if r = 0 then [CondDestroy (PrivateCond p), CondDelete (PrivateCond p)]
                        else [CondDestroy (PrivateCond p)]
            | None \<Rightarrow> []))"
  by (simp add: CondVar_close_def pthread_cond_destroy_def delete_cond_def record_event_def
        split: option.splits)

theorem close_leaves_shared_part_witness:
  "m_cond local_condvar \<noteq> Some 8
   \<and> CondVar_close 0 local_condvar (idle_world\<lparr>conds := [7 \<mapsto> CondInitialized, 8 \<mapsto> CondInitialized]\<rparr>)
       = (Returned \<lparr>m_shared_part = None, m_sem = None, m_cond = None\<rparr>,
          idle_world\<lparr>conds := [8 \<mapsto> CondInitialized],
                     trace := [CondDestroy (PrivateCond 7), CondDelete (PrivateCond 7)]\<rparr>)
   \<and> conds (snd (CondVar_close 0 local_condvar
         (idle_world\<lparr>conds := [7 \<mapsto> CondInitialized, 8 \<mapsto> CondInitialized]\<rparr>))) 8 = Some CondInitialized"
proof -
  let ?w = "idle_world\<lparr>conds := [7 \<mapsto> CondInitialized, 8 \<mapsto> CondInitialized]\<rparr>"
  have other: "m_cond local_condvar \<noteq> Some 8"
    by (simp add: local_condvar_def)
  have run: "CondVar_close 0 local_condvar ?w
       = (Returned \<lparr>m_shared_part = None, m_sem = None, m_cond = None\<rparr>,
          idle_world\<lparr>conds := [8 \<mapsto> CondInitialized],
                     trace := [CondDestroy (PrivateCond 7), CondDelete (PrivateCond 7)]\<rparr>)"
    by (simp add: CondVar_close_def pthread_cond_destroy_def delete_cond_def record_event_def
          local_condvar_def idle_world_def fun_upd_twist)
  from close_leaves_shared_part [of 0 local_condvar ?w 8] other
  have "conds (snd (CondVar_close 0 local_condvar ?w)) 8 = conds ?w 8"
    by blast
  then have "conds (snd (CondVar_close 0 local_condvar ?w)) 8 = Some CondInitialized"
    by simp
  with other run show ?thesis
    by blast
qed

lemma failed_wait_calls_handler:
  "length (trace v) < length (trace (snd (and_then (handle_wait_error hwe r v) (\<lambda>_. try_recover rf0))))"
  by (cases "hwe r"; cases rf0)
     (simp_all add: and_then_def handle_wait_error_def try_recover_def recover_func_def
        mark_as_consistent_def RobustMutex_unlock_def Mutex_unlock_def
        pthread_mutex_unlock_def TIGHTDB_ASSERT_def record_event_def)

text \<open>
  C6, as amended. On the path without emulation, with a timeout given, when
  \<open>pthread_cond_timedwait\<close> answers \<open>ETIMEDOUT\<close> the call returns, having made that one
  call: no callback, no \<open>handle_wait_error\<close>, no \<open>mark_as_consistent\<close>, no \<open>unlock\<close>.
  The outcome is the one of a wait that succeeded (\<open>wait\<close> returns \<open>void\<close>), and not the
  one of a wait that failed with another error, which calls \<open>handle_wait_error\<close>.
\<close>

theorem timed_wait_timeout:
  assumes native: "\<not> (emulation w \<and> m_sem c \<noteq> None)"
  shows "CondVar_wait_robust env lll rf hwe ETIMEDOUT (Some t) c w =
           Some (Returned (), w\<lparr>trace := trace w @ [CondTimedWait (native_cond c w)]\<rparr>)
     \<and> CondVar_wait_robust env lll rf hwe ETIMEDOUT (Some t) c w =
         CondVar_wait_robust env lll rf hwe 0 (Some t) c w
     \<and> (r \<noteq> 0 \<and> r \<noteq> ETIMEDOUT \<longrightarrow>
         CondVar_wait_robust env lll rf hwe r (Some t) c w \<noteq>
         CondVar_wait_robust env lll rf hwe ETIMEDOUT (Some t) c w)"
proof -
  let ?w1 = "w\<lparr>trace := trace w @ [CondTimedWait (native_cond c w)]\<rparr>"
  have a: "CondVar_wait_robust env lll rf hwe ETIMEDOUT (Some t) c w = Some (Returned (), ?w1)"
    and b: "CondVar_wait_robust env lll rf hwe 0 (Some t) c w = Some (Returned (), ?w1)"
    using native by (auto simp add: CondVar_wait_robust_def record_event_def Let_def)
  have "CondVar_wait_robust env lll rf hwe r (Some t) c w \<noteq> Some (Returned (), ?w1)"
    if "r \<noteq> 0" "r \<noteq> ETIMEDOUT"
  proof
    assume "CondVar_wait_robust env lll rf hwe r (Some t) c w = Some (Returned (), ?w1)"
    with native that
    have "and_then (handle_wait_error hwe r ?w1) (\<lambda>_. try_recover (rf 0)) = (Returned (), ?w1)"
      by (auto simp add: CondVar_wait_robust_def record_event_def Let_def)
    with failed_wait_calls_handler [of ?w1 hwe r "rf 0"] show False
      by simp
  qed
  with a b show ?thesis by simp
qed

theorem timed_wait_timeout_witness:
  "\<not> (emulation native_world \<and> m_sem native_condvar \<noteq> None)
   \<and> CondVar_wait_robust (\<lambda>_ x. x) (\<lambda>_. Returned True) (\<lambda>_. Returned ()) (\<lambda>_. Returned ())
        ETIMEDOUT (Some (1, 0)) native_condvar native_world =
       Some (Returned (), native_world\<lparr>trace := [CondTimedWait (SharedCond 0)]\<rparr>)
   \<and> (22::int) \<noteq> 0 \<and> 22 \<noteq> ETIMEDOUT
   \<and> CondVar_wait_robust (\<lambda>_ x. x) (\<lambda>_. Returned True) (\<lambda>_. Returned ()) (\<lambda>_. Returned ())
        22 (Some (1, 0)) native_condvar native_world \<noteq>
      CondVar_wait_robust (\<lambda>_ x. x) (\<lambda>_. Returned True) (\<lambda>_. Returned ()) (\<lambda>_. Returned ())
        ETIMEDOUT (Some (1, 0)) native_condvar native_world"
proof -
  have native: "\<not> (emulation native_world \<and> m_sem native_condvar \<noteq> None)"
    by (simp add: native_world_def)
  have other: "(22::int) \<noteq> 0 \<and> 22 \<noteq> ETIMEDOUT"
    by (simp add: ETIMEDOUT_def)
  have shape: "native_world\<lparr>trace := trace native_world @ [CondTimedWait (native_cond native_condvar native_world)]\<rparr>
      = native_world\<lparr>trace := [CondTimedWait (SharedCond 0)]\<rparr>"
    by (simp add: native_world_def waiting_world_def idle_world_def native_condvar_def native_cond_def)
  note t = timed_wait_timeout [OF native, of "\<lambda>_ x. x" "\<lambda>_. Returned True" "\<lambda>_. Returned ()"
      "\<lambda>_. Returned ()" "(1, 0)" 22]
  from t shape have "CondVar_wait_robust (\<lambda>_ x. x) (\<lambda>_. Returned True) (\<lambda>_. Returned ()) (\<lambda>_. Returned ())
        ETIMEDOUT (Some (1, 0)) native_condvar native_world =
       Some (Returned (), native_world\<lparr>trace := [CondTimedWait (SharedCond 0)]\<rparr>)"
    by simp
  moreover from t other
  have "CondVar_wait_robust (\<lambda>_ x. x) (\<lambda>_. Returned True) (\<lambda>_. Returned ()) (\<lambda>_. Returned ())
        22 (Some (1, 0)) native_condvar native_world \<noteq>
      CondVar_wait_robust (\<lambda>_ x. x) (\<lambda>_. Returned True) (\<lambda>_. Returned ()) (\<lambda>_. Returned ())
        ETIMEDOUT (Some (1, 0)) native_condvar native_world"
    by blast
  ultimately show ?thesis
    using native other by blast
qed

text \<open>
  C6 as stated fails: a timeout is not distinct from success. Here the timed wait of a
  process-shared handle in a build without emulation ends the same way on \<open>ETIMEDOUT\<close>
  and on 0.
\<close>

theorem timed_wait_timeout_not_distinct_from_success:
  "CondVar_wait_robust (\<lambda>_ x. x) (\<lambda>_. Returned True) (\<lambda>_. Returned ()) (\<lambda>_. Returned ())
        ETIMEDOUT (Some (1, 0)) native_condvar native_world =
       Some (Returned (), native_world\<lparr>trace := [CondTimedWait (SharedCond 0)]\<rparr>)
   \<and> CondVar_wait_robust (\<lambda>_ x. x) (\<lambda>_. Returned True) (\<lambda>_. Returned ()) (\<lambda>_. Returned ())
        0 (Some (1, 0)) native_condvar native_world =
       Some (Returned (), native_world\<lparr>trace := [CondTimedWait (SharedCond 0)]\<rparr>)"
  by (simp add: CondVar_wait_robust_def record_event_def native_world_def waiting_world_def
        idle_world_def native_condvar_def native_cond_def ETIMEDOUT_def)


subsection \<open>Thread\<close>

text \<open>
  C10. A default-constructed Thread is not joinable. A \<open>start\<close> that returns, and a
  construction with a function that returns, leave the Thread joinable. \<open>start\<close> on a
  joinable Thread and the destructor of a joinable Thread end in \<^verbatim>\<open>std::terminate\<close>:
  neither returns, neither throws.
\<close>

theorem Thread_joinable_lifecycle:
  "\<not> joinable Thread_default
   \<and> (Thread_start alloc pc t = Returned t' \<longrightarrow> joinable t')
   \<and> (Thread_ctor_func alloc pc = Returned t' \<longrightarrow> joinable t')
   \<and> (fst pc = 0 \<longrightarrow> (\<exists>t'. Thread_start True pc Thread_default = Returned t')
                     \<and> (\<exists>t'. Thread_ctor_func True pc = Returned t'))
   \<and> (joinable t \<longrightarrow> Thread_start alloc pc t = Terminated)
   \<and> (joinable t \<longrightarrow> Thread_dtor t = Terminated)"
  by (auto simp: joinable_def Thread_default_def Thread_start_def Thread_ctor_func_def
        Thread_start_entry_def Thread_dtor_def split: if_splits)

theorem Thread_joinable_lifecycle_witness:
  "Thread_start True (0, 7) Thread_default = Returned \<lparr>m_id = Some 7, m_joinable = True\<rparr>
   \<and> joinable \<lparr>m_id = Some 7, m_joinable = True\<rparr>
   \<and> Thread_start True (0, 8) \<lparr>m_id = Some 7, m_joinable = True\<rparr> = Terminated
   \<and> Thread_dtor \<lparr>m_id = Some 7, m_joinable = True\<rparr> = Terminated"
proof -
  let ?t = "\<lparr>m_id = Some 7, m_joinable = True\<rparr>"
  have started: "Thread_start True (0, 7) Thread_default = Returned ?t"
    by (simp add: Thread_start_def Thread_start_entry_def Thread_default_def)
  note life = Thread_joinable_lifecycle [of True "(0, 7)" Thread_default ?t]
  from life started have j: "joinable ?t"
    by blast
  from Thread_joinable_lifecycle [of True "(0, 8)" ?t] j
  have "Thread_start True (0, 8) ?t = Terminated" and "Thread_dtor ?t = Terminated"
    by blast+
  with started j show ?thesis
    by blast
qed


subsection \<open>Atomic\<close>

text \<open>
  C5. In each variant, \<open>compare_and_swap\<close> returns true only when the cell held the
  expected value and now holds the new value, and then the caller's \<open>expected\<close> is left
  as it was. The C++11 variant may fail although the cell
  holds the expected value (weak CAS); it then leaves the cell as it was.
\<close>

theorem compare_and_swap_success:
  "(compare_and_swap v spurious c expected newvalue = (True, c', expected')
      \<longrightarrow> state c = expected \<and> state c' = newvalue \<and> expected' = expected)
   \<and> (state c = expected
      \<longrightarrow> compare_and_swap Cxx11 True c expected newvalue = (False, c, expected))"
  by (cases v)
     (auto simp: compare_and_swap_cxx11_def compare_and_swap_gcc_def
        compare_and_swap_legacy_def compare_exchange_weak_def atomic_compare_exchange_n_def
        sync_val_compare_and_swap_def Let_def split: if_splits)

theorem compare_and_swap_success_witness:
  "compare_and_swap LegacySync False \<lparr>state = 5::nat\<rparr> 5 9 = (True, \<lparr>state = 9\<rparr>, 5)
   \<and> state \<lparr>state = 5::nat\<rparr> = 5 \<and> state \<lparr>state = 9::nat\<rparr> = 9
   \<and> compare_and_swap Cxx11 True \<lparr>state = 5::nat\<rparr> 5 9 = (False, \<lparr>state = 5\<rparr>, 5)"
proof -
  have run: "compare_and_swap LegacySync False \<lparr>state = 5::nat\<rparr> 5 9 = (True, \<lparr>state = 9\<rparr>, 5)"
    by (simp add: compare_and_swap_legacy_def sync_val_compare_and_swap_def)
  note cas = compare_and_swap_success
    [of LegacySync False "\<lparr>state = 5::nat\<rparr>" 5 9 "\<lparr>state = 9\<rparr>" 5]
  from cas run have "state \<lparr>state = 5::nat\<rparr> = 5 \<and> state \<lparr>state = 9::nat\<rparr> = 9"
    by blast
  moreover from cas have "compare_and_swap Cxx11 True \<lparr>state = 5::nat\<rparr> 5 9 = (False, \<lparr>state = 5\<rparr>, 5)"
    by simp
  ultimately show ?thesis using run
    by blast
qed


subsection \<open>Benchmark results\<close>

text \<open>
  C9. For a non-empty sample list of size \<open>rep\<close> (sorted or not): when \<open>rep\<close> is odd
  the median is \<open>samples[rep/2]\<close>, an index within bounds; when \<open>rep\<close> is even the two
  reads are at \<open>rep/2\<close> and \<open>rep/2 + 1\<close>, the median being \<open>half_sum\<close> of the two when the
  second is within bounds; for \<open>rep = 2\<close> the index \<open>rep/2 + 1\<close> equals \<open>rep\<close> and the
  read is out of bounds.
\<close>

theorem finish_median_indices:
  "samples \<noteq> [] \<Longrightarrow>
   (odd (length samples) \<longrightarrow>
      length samples div 2 < length samples
      \<and> finish_min_max_median half_sum r samples =
          Inr (r\<lparr>r_rep := length samples, r_min := hd samples, r_max := last samples,
                r_median := samples ! (length samples div 2)\<rparr>))
   \<and> (even (length samples) \<longrightarrow>
      finish_min_max_median half_sum r samples =
        (if length samples div 2 + 1 < length samples
         then Inr (r\<lparr>r_rep := length samples, r_min := hd samples, r_max := last samples,
                r_median := half_sum (samples ! (length samples div 2))
                                     (samples ! (length samples div 2 + 1))\<rparr>)
         else Inl (OutOfBoundsRead (length samples div 2 + 1) (length samples))))
   \<and> (length samples = 2 \<longrightarrow>
      length samples div 2 + 1 = length samples
      \<and> finish_min_max_median half_sum r samples = Inl (OutOfBoundsRead 2 2))"
proof (intro conjI impI)
  assume ne: "samples \<noteq> []"
  then have pos: "0 < length samples" by simp
  { assume "odd (length samples)"
    then have m: "length samples mod 2 \<noteq> 0" by presburger
    show "length samples div 2 < length samples" using pos by simp
    then show "finish_min_max_median half_sum r samples =
          Inr (r\<lparr>r_rep := length samples, r_min := hd samples, r_max := last samples,
                r_median := samples ! (length samples div 2)\<rparr>)"
      using pos m by (simp add: finish_min_max_median_def vec_index_def Let_def) }
  { assume "even (length samples)"
    then have m: "length samples mod 2 = 0" by presburger
    have lt: "length samples div 2 < length samples" using pos by simp
    show "finish_min_max_median half_sum r samples =
        (if length samples div 2 + 1 < length samples
         then Inr (r\<lparr>r_rep := length samples, r_min := hd samples, r_max := last samples,
                r_median := half_sum (samples ! (length samples div 2))
                                     (samples ! (length samples div 2 + 1))\<rparr>)
         else Inl (OutOfBoundsRead (length samples div 2 + 1) (length samples)))"
      using pos m lt by (simp add: finish_min_max_median_def vec_index_def Let_def) }
  { assume two: "length samples = 2"
    show "length samples div 2 + 1 = length samples" using two by simp
    show "finish_min_max_median half_sum r samples = Inl (OutOfBoundsRead 2 2)"
      using two by (simp add: finish_min_max_median_def vec_index_def Let_def) }
qed

theorem finish_median_indices_witness:
  "[1, 2::int] \<noteq> [] \<and> length [1, 2::int] = 2
   \<and> finish_min_max_median (\<lambda>a b. (a + b) div 2) \<lparr>r_min = 0, r_max = 0, r_median = 0, r_rep = 0\<rparr>
        [1, 2::int] = Inl (OutOfBoundsRead 2 2)"
proof -
  have ne: "[1, 2::int] \<noteq> []" and two: "length [1, 2::int] = 2"
    by simp_all
  from finish_median_indices [OF ne, of "\<lambda>a b. (a + b) div 2"
      "\<lparr>r_min = 0, r_max = 0, r_median = 0, r_rep = 0\<rparr>"] two
  have "finish_min_max_median (\<lambda>a b. (a + b) div 2)
          \<lparr>r_min = 0, r_max = 0, r_median = 0, r_rep = 0\<rparr> [1, 2::int] = Inl (OutOfBoundsRead 2 2)"
    by blast
  with ne two show ?thesis
    by blast
qed

end
